theory Spec2Isabelle
  imports Complex_Main "HOL-Library.Log_Nat"
begin

section \<open>Tensors\<close>

text \<open>
  The notebook \<^verbatim>\<open>src/t08/GNN_tutorial.ipynb\<close> works on PyTorch tensors. A 2-D tensor is
  modelled by its number of columns and the list of its rows; the number of rows is the
  length of that list, so that the shapes \<open>(0, 7)\<close> and \<open>(0, 0)\<close> stay different. A 1-D
  tensor is a list.

  The functions are given in two arithmetics. First over exact arithmetic: entries are
  elements of an arbitrary semiring (a commutative ring or a linear order where an
  operation needs one), for instance the reals or the rationals. Then, in the section on
  \<^verbatim>\<open>float32\<close> tensors, over the reals with every operation rounded as PyTorch rounds it.
  Infinities and NaN entries are not part of either. A failing PyTorch call (a \<^verbatim>\<open>RuntimeError\<close> for a size mismatch, an
  \<^verbatim>\<open>IndexError\<close>, Python's \<^verbatim>\<open>ZeroDivisionError\<close>) is the left summand of the result.
\<close>

datatype error = ShapeError | IndexError | ZeroDivisionError

datatype 'a tensor2 = Tensor2 (ncols: nat) (rows: "'a list list")

definition nrows :: "'a tensor2 \<Rightarrow> nat" where
  "nrows M = length (rows M)"

definition wf_tensor :: "'a tensor2 \<Rightarrow> bool" where
  "wf_tensor M = list_all (\<lambda>r. length r = ncols M) (rows M)"

definition entry :: "'a tensor2 \<Rightarrow> nat \<Rightarrow> nat \<Rightarrow> 'a" where
  "entry M i j = rows M ! i ! j"

definition column :: "'a tensor2 \<Rightarrow> nat \<Rightarrow> 'a list" where
  "column M j = map (\<lambda>r. r ! j) (rows M)"

definition dot :: "'a::semiring_0 list \<Rightarrow> 'a list \<Rightarrow> 'a" where
  "dot xs ys = sum_list (map2 (\<lambda>x y. x * y) xs ys)"

text \<open>
  \<^verbatim>\<open>torch.mm(x, w)\<close>: the matrix product; it raises when the inner sizes differ.
\<close>

definition mm :: "'a::semiring_0 tensor2 \<Rightarrow> 'a tensor2 \<Rightarrow> error + 'a tensor2" where
  "mm X W =
     (if ncols X \<noteq> nrows W then Inl ShapeError
      else Inr (Tensor2 (ncols W)
                 (map (\<lambda>r. map (\<lambda>j. dot r (column W j)) [0..<ncols W]) (rows X))))"

text \<open>
  \<^verbatim>\<open>torch.spmm(adj, support)\<close>: the same product with a sparse left operand. The sparse
  adjacency matrix is represented by the dense matrix it denotes.
\<close>

definition spmm :: "'a::semiring_0 tensor2 \<Rightarrow> 'a tensor2 \<Rightarrow> error + 'a tensor2" where
  "spmm adj support = mm adj support"

text \<open>
  \<^verbatim>\<open>output + self.bias\<close> with \<open>output\<close> of shape \<open>(N, c)\<close> and a 1-D bias, under PyTorch's
  broadcasting: equal trailing sizes add row by row, a size of one is stretched, anything
  else raises.
\<close>

definition add_bias :: "'a::semiring_0 tensor2 \<Rightarrow> 'a list \<Rightarrow> error + 'a tensor2" where
  "add_bias M b =
     (if length b = ncols M then
        Inr (Tensor2 (ncols M) (map (\<lambda>r. map2 (\<lambda>x y. x + y) r b) (rows M)))
      else if length b = 1 then
        Inr (Tensor2 (ncols M) (map (\<lambda>r. map (\<lambda>x. x + hd b) r) (rows M)))
      else if ncols M = 1 then
        Inr (Tensor2 (length b) (map (\<lambda>r. map (\<lambda>y. hd r + y) b) (rows M)))
      else Inl ShapeError)"

section \<open>The graph convolution layer\<close>

text \<open>
  \<^verbatim>\<open>
  class GraphConvolution(Module):
      def forward(self, x, adj):
          support = torch.mm(x, self.weight)
          output = torch.spmm(adj, support)
          return output + self.bias
  \<close>
\<close>

record 'a GraphConvolution =
  weight :: "'a tensor2"
  bias :: "'a list"

definition GraphConvolution_forward ::
  "'a::semiring_0 GraphConvolution \<Rightarrow> 'a tensor2 \<Rightarrow> 'a tensor2 \<Rightarrow> error + 'a tensor2" where
  "GraphConvolution_forward self x adj =
     (case mm x (weight self) of
        Inl e \<Rightarrow> Inl e
      | Inr support \<Rightarrow>
          (case spmm adj support of
             Inl e \<Rightarrow> Inl e
           | Inr output \<Rightarrow> add_bias output (bias self)))"

text \<open>The parameter shapes the constructor allocates: weight \<open>(in, out)\<close>, bias \<open>(out)\<close>.\<close>

definition layer_shape :: "'a GraphConvolution \<Rightarrow> nat \<Rightarrow> nat \<Rightarrow> bool" where
  "layer_shape self n_in n_out =
     (wf_tensor (weight self) \<and> nrows (weight self) = n_in \<and> ncols (weight self) = n_out
      \<and> length (bias self) = n_out)"

definition has_shape :: "'a tensor2 \<Rightarrow> nat \<Rightarrow> nat \<Rightarrow> bool" where
  "has_shape M n c = (wf_tensor M \<and> nrows M = n \<and> ncols M = c)"

text \<open>
  \<^verbatim>\<open>
      def __init__(self, in_features, out_features):
          self.weight = Parameter(torch.FloatTensor(in_features, out_features))
          self.bias = Parameter(torch.FloatTensor(out_features))
          self.reset_parameters()

      def reset_parameters(self):
          stdv = 1.0 / math.sqrt(self.weight.size(1))
          self.weight.data.uniform_(-stdv, stdv)
          self.bias.data.uniform_(-stdv, stdv)
  \<close>
  The random number generator is PyTorch's; it is a parameter of the model: \<open>sample g lo hi\<close>
  is one draw from the uniform distribution between \<open>lo\<close> and \<open>hi\<close> in generator state
  \<open>g\<close>, with the state after the draw. \<^verbatim>\<open>uniform_\<close> fills a tensor with one draw per entry,
  the generator state threaded through the entries in row-major order. Python's float
  division raises on the divisor \<open>math.sqrt(0) = 0.0\<close>.
\<close>

fun uniform_list ::
  "('g \<Rightarrow> real \<Rightarrow> real \<Rightarrow> real \<times> 'g) \<Rightarrow> nat \<Rightarrow> real \<Rightarrow> real \<Rightarrow> 'g \<Rightarrow> real list \<times> 'g" where
  "uniform_list sample 0 lo hi g = ([], g)"
| "uniform_list sample (Suc n) lo hi g =
     (let (x, g1) = sample g lo hi;
          (xs, g2) = uniform_list sample n lo hi g1
      in (x # xs, g2))"

fun uniform_rows ::
  "('g \<Rightarrow> real \<Rightarrow> real \<Rightarrow> real \<times> 'g) \<Rightarrow> nat \<Rightarrow> nat \<Rightarrow> real \<Rightarrow> real \<Rightarrow> 'g
   \<Rightarrow> real list list \<times> 'g" where
  "uniform_rows sample 0 c lo hi g = ([], g)"
| "uniform_rows sample (Suc r) c lo hi g =
     (let (row, g1) = uniform_list sample c lo hi g;
          (rs, g2) = uniform_rows sample r c lo hi g1
      in (row # rs, g2))"

definition GraphConvolution_init ::
  "('g \<Rightarrow> real \<Rightarrow> real \<Rightarrow> real \<times> 'g) \<Rightarrow> nat \<Rightarrow> nat \<Rightarrow> 'g
   \<Rightarrow> error + real GraphConvolution \<times> 'g" where
  "GraphConvolution_init sample in_features out_features g =
     (if sqrt (real out_features) = 0 then Inl ZeroDivisionError
      else
        (let stdv = 1 / sqrt (real out_features);
             (w, g1) = uniform_rows sample in_features out_features (- stdv) stdv g;
             (b, g2) = uniform_list sample out_features (- stdv) stdv g1
         in Inr (\<lparr>weight = Tensor2 out_features w, bias = b\<rparr>, g2)))"

text \<open>The generator state after \<open>k\<close> draws between \<open>lo\<close> and \<open>hi\<close>.\<close>

fun gen_state ::
  "('g \<Rightarrow> real \<Rightarrow> real \<Rightarrow> real \<times> 'g) \<Rightarrow> real \<Rightarrow> real \<Rightarrow> nat \<Rightarrow> 'g \<Rightarrow> 'g" where
  "gen_state sample lo hi 0 g = g"
| "gen_state sample lo hi (Suc k) g = snd (sample (gen_state sample lo hi k g) lo hi)"

text \<open>
  Entrywise operations on tensors of equal shape, used to state algebraic properties of
  the forward pass: \<^verbatim>\<open>a * X\<close>, \<^verbatim>\<open>X + Y\<close>, and a 1-D tensor subtracted from every row.
\<close>

definition scale :: "'a::semiring_0 \<Rightarrow> 'a tensor2 \<Rightarrow> 'a tensor2" where
  "scale a X = Tensor2 (ncols X) (map (\<lambda>r. map (\<lambda>x. a * x) r) (rows X))"

definition tadd :: "'a::semiring_0 tensor2 \<Rightarrow> 'a tensor2 \<Rightarrow> 'a tensor2" where
  "tadd X Y = Tensor2 (ncols X) (map2 (\<lambda>r s. map2 (\<lambda>x y. x + y) r s) (rows X) (rows Y))"

definition sub_rows :: "'a::ring tensor2 \<Rightarrow> 'a list \<Rightarrow> 'a tensor2" where
  "sub_rows M v = Tensor2 (ncols M) (map (\<lambda>r. map2 (\<lambda>x y. x - y) r v) (rows M))"

section \<open>The two-layer model\<close>

text \<open>
  \<^verbatim>\<open>
  class GCN(nn.Module):
      def __init__(self, input_features, hidden_dim, num_classes):
          self.gc1 = GraphConvolution(input_features, hidden_dim)
          self.gc2 = GraphConvolution(hidden_dim, num_classes)
      def forward(self, x, adj):
          x = self.gc1(x, adj)
          x = F.relu(x)
          x = self.gc2(x, adj)
          return x
  \<close>
\<close>

definition relu :: "'a::{zero,linorder} tensor2 \<Rightarrow> 'a tensor2" where
  "relu X = Tensor2 (ncols X) (map (\<lambda>r. map (\<lambda>x. max 0 x) r) (rows X))"

record 'a GCN =
  gc1 :: "'a GraphConvolution"
  gc2 :: "'a GraphConvolution"

definition GCN_forward ::
  "'a::{semiring_0,linorder} GCN \<Rightarrow> 'a tensor2 \<Rightarrow> 'a tensor2 \<Rightarrow> error + 'a tensor2" where
  "GCN_forward self x adj =
     (case GraphConvolution_forward (gc1 self) x adj of
        Inl e \<Rightarrow> Inl e
      | Inr x1 \<Rightarrow>
          (let x2 = relu x1
           in GraphConvolution_forward (gc2 self) x2 adj))"

definition gcn_shape :: "'a GCN \<Rightarrow> nat \<Rightarrow> nat \<Rightarrow> nat \<Rightarrow> bool" where
  "gcn_shape self input_features hidden_dim num_classes =
     (layer_shape (gc1 self) input_features hidden_dim
      \<and> layer_shape (gc2 self) hidden_dim num_classes)"

section \<open>Accuracy\<close>

text \<open>
  \<^verbatim>\<open>
  def get_predictions(output, labels):
      preds = output.max(1)[1].type_as(labels)
      correct = preds.eq(labels).double()
      return correct

  def accuracy(output, labels):
      correct = get_predictions(output, labels)
      correct = correct.sum()
      return correct / len(labels)
  \<close>
  \<^verbatim>\<open>output.max(1)[1]\<close> is, for every row, the index of its first maximal entry; the
  reduction raises when the reduced dimension has size zero. \<^verbatim>\<open>eq\<close> broadcasts like
  every elementwise operation. The sum of the 0.0/1.0 values is a count, and dividing the
  0-dimensional \<^verbatim>\<open>float64\<close> tensor by the Python integer \<^verbatim>\<open>len(labels)\<close> follows IEEE 754:
  no exception for a zero divisor, but an infinity or NaN. A finite quotient is modelled
  by the exact real quotient.
\<close>

fun argmax_from :: "nat \<Rightarrow> 'a::linorder \<Rightarrow> nat \<Rightarrow> 'a list \<Rightarrow> nat" where
  "argmax_from best bv i [] = best"
| "argmax_from best bv i (x # xs) =
     (if bv < x then argmax_from i x (Suc i) xs else argmax_from best bv (Suc i) xs)"

definition argmax :: "'a::linorder list \<Rightarrow> nat" where
  "argmax r = (case r of [] \<Rightarrow> 0 | x # xs \<Rightarrow> argmax_from 0 x 1 xs)"

definition max_dim1 :: "'a::linorder tensor2 \<Rightarrow> error + nat list" where
  "max_dim1 output =
     (if ncols output = 0 then Inl IndexError else Inr (map argmax (rows output)))"

definition eq_broadcast :: "int list \<Rightarrow> int list \<Rightarrow> error + bool list" where
  "eq_broadcast preds labels =
     (if length preds = length labels then Inr (map2 (\<lambda>p l. p = l) preds labels)
      else if length labels = 1 then Inr (map (\<lambda>p. p = hd labels) preds)
      else if length preds = 1 then Inr (map (\<lambda>l. hd preds = l) labels)
      else Inl ShapeError)"

definition get_predictions :: "'a::linorder tensor2 \<Rightarrow> int list \<Rightarrow> error + real list" where
  "get_predictions output labels =
     (case max_dim1 output of
        Inl e \<Rightarrow> Inl e
      | Inr idx \<Rightarrow>
          (let preds = map int idx
           in case eq_broadcast preds labels of
                Inl e \<Rightarrow> Inl e
              | Inr correct \<Rightarrow> Inr (map (\<lambda>c. if c then 1 else 0) correct)))"

datatype float64 = Finite real | PosInf | NegInf | NaN

definition true_divide :: "real \<Rightarrow> nat \<Rightarrow> float64" where
  "true_divide x n =
     (if n = 0 then (if x = 0 then NaN else if 0 < x then PosInf else NegInf)
      else Finite (x / real n))"

definition accuracy :: "'a::linorder tensor2 \<Rightarrow> int list \<Rightarrow> error + float64" where
  "accuracy output labels =
     (case get_predictions output labels of
        Inl e \<Rightarrow> Inl e
      | Inr correct \<Rightarrow>
          (let correct = sum_list correct
           in Inr (true_divide correct (length labels))))"

text \<open>
  The first maximal position of a row, stated without reference to the scan:
  \<open>k\<close> is in range, no entry exceeds the one at \<open>k\<close>, every earlier entry is smaller.
\<close>

definition is_first_max :: "'a::linorder list \<Rightarrow> nat \<Rightarrow> bool" where
  "is_first_max r k =
     (k < length r \<and> (\<forall>j<length r. r ! j \<le> r ! k) \<and> (\<forall>j<k. r ! j < r ! k))"

text \<open>
  A function applied to every entry, with one function per row, and the softmax of exact
  arithmetic, \<open>exp x\<close> over the sum of the exponentials of the row.
\<close>

definition map_rows :: "(nat \<Rightarrow> 'a \<Rightarrow> 'b) \<Rightarrow> 'a tensor2 \<Rightarrow> 'b tensor2" where
  "map_rows f M = Tensor2 (ncols M) (map2 (\<lambda>i r. map (f i) r) [0..<length (rows M)] (rows M))"

definition softmax_exact :: "real tensor2 \<Rightarrow> real tensor2" where
  "softmax_exact M = Tensor2 (ncols M) (map (\<lambda>r. map (\<lambda>x. exp x / sum_list (map exp r)) r) (rows M))"

section \<open>Indexing\<close>

text \<open>
  \<^verbatim>\<open>t[idx]\<close> with an index tensor selects rows (entries of a 1-D tensor) in the order of
  \<open>idx\<close>; an index out of range raises.
\<close>

definition take_rows :: "nat list \<Rightarrow> 'a tensor2 \<Rightarrow> 'a tensor2" where
  "take_rows idx M = Tensor2 (ncols M) (map (\<lambda>i. rows M ! i) idx)"

definition take_list :: "nat list \<Rightarrow> 'b list \<Rightarrow> 'b list" where
  "take_list idx xs = map (\<lambda>i. xs ! i) idx"

definition index_rows :: "'a tensor2 \<Rightarrow> nat list \<Rightarrow> error + 'a tensor2" where
  "index_rows M idx =
     (if list_all (\<lambda>i. i < nrows M) idx then Inr (take_rows idx M) else Inl IndexError)"

definition index_list :: "'b list \<Rightarrow> nat list \<Rightarrow> error + 'b list" where
  "index_list xs idx =
     (if list_all (\<lambda>i. i < length xs) idx then Inr (take_list idx xs) else Inl IndexError)"

text \<open>
  A relabelling of the \<open>N\<close> nodes is a list \<open>p\<close> holding every index below \<open>N\<close> once:
  node \<open>i\<close> of the relabelled graph is node \<open>p ! i\<close> of the original. It acts on the
  adjacency matrix on rows and columns (\<^verbatim>\<open>adj[p][:, p]\<close>).
\<close>

definition is_permutation :: "nat list \<Rightarrow> nat \<Rightarrow> bool" where
  "is_permutation p n = (distinct p \<and> length p = n \<and> list_all (\<lambda>i. i < n) p)"

definition permute_adj :: "nat list \<Rightarrow> 'a tensor2 \<Rightarrow> 'a tensor2" where
  "permute_adj p A = Tensor2 (length p) (map (\<lambda>i. map (\<lambda>k. rows A ! i ! k) p) p)"

text \<open>
  \<^verbatim>\<open>
  def gcn_accuracy(model):
      model.eval()
      y_pred = model(features, adj)
      acc = accuracy(y_pred[idx_test], labels[idx_test])
      print(f"Accuracy: {acc:.5}")
      return acc
  \<close>
  The notebook's globals \<open>features\<close>, \<open>adj\<close>, \<open>labels\<close> and \<open>idx_test\<close> are arguments.
\<close>

definition gcn_accuracy ::
  "'a::{semiring_0,linorder} GCN \<Rightarrow> 'a tensor2 \<Rightarrow> 'a tensor2 \<Rightarrow> int list \<Rightarrow> nat list
   \<Rightarrow> error + float64" where
  "gcn_accuracy model features adj labels idx_test =
     (case GCN_forward model features adj of
        Inl e \<Rightarrow> Inl e
      | Inr y_pred \<Rightarrow>
          (case index_rows y_pred idx_test of
             Inl e \<Rightarrow> Inl e
           | Inr y_test \<Rightarrow>
               (case index_list labels idx_test of
                  Inl e \<Rightarrow> Inl e
                | Inr l_test \<Rightarrow> accuracy y_test l_test)))"

section \<open>The model without graph structure\<close>

text \<open>
  The identity adjacency matrix, and the row-wise two-layer perceptron with the
  parameters of the model: linear, rectifier, linear, on one feature row.
\<close>

definition eye :: "nat \<Rightarrow> 'a::semiring_1 tensor2" where
  "eye n = Tensor2 n (map (\<lambda>i. map (\<lambda>j. if i = j then 1 else 0) [0..<n]) [0..<n])"

definition linear_row :: "'a::semiring_0 GraphConvolution \<Rightarrow> 'a list \<Rightarrow> 'a list" where
  "linear_row l r =
     map2 (\<lambda>x y. x + y) (map (\<lambda>j. dot r (column (weight l) j)) [0..<ncols (weight l)]) (bias l)"

definition mlp_row :: "'a::{semiring_0,linorder} GCN \<Rightarrow> 'a list \<Rightarrow> 'a list" where
  "mlp_row m r = linear_row (gc2 m) (map (\<lambda>x. max 0 x) (linear_row (gc1 m) r))"

section \<open>The training loop\<close>

text \<open>
  \<^verbatim>\<open>
  opt = optim.Adam(gcn.parameters())
  losses = []
  gcn.train()
  for epoch in trange(1000):
      opt.zero_grad()
      output = gcn(features, adj)
      loss = F.cross_entropy(output[idx_train], labels[idx_train])
      loss.backward()
      opt.step()
      losses.append(loss.item())
  \<close>
  The loss function, automatic differentiation and the optimizer belong to PyTorch; they
  are parameters of the model of the loop (\<^verbatim>\<open>gcn.train()\<close> only sets a mode flag that
  this model, which has no dropout, never reads). \<open>'g\<close> is the type of the gradient buffers and
  \<open>'o\<close> the type of the optimizer's own state. \<open>backward\<close> adds to the buffers the gradient
  of the loss at the current parameters.
\<close>

record ('a, 'g, 'o) framework =
  cross_entropy :: "'a tensor2 \<Rightarrow> int list \<Rightarrow> error + 'a"
  zero_grad :: "'g \<Rightarrow> 'g"
  backward :: "'a GCN \<Rightarrow> 'g \<Rightarrow> 'g"
  opt_step :: "'o \<Rightarrow> 'a GCN \<Rightarrow> 'g \<Rightarrow> 'o \<times> 'a GCN"

record ('a, 'g, 'o) train_state =
  gcn :: "'a GCN"
  grads :: 'g
  opt :: 'o
  losses :: "'a list"

definition epoch ::
  "('a::{semiring_0,linorder}, 'g, 'o) framework \<Rightarrow> 'a tensor2 \<Rightarrow> 'a tensor2 \<Rightarrow> int list
   \<Rightarrow> nat list \<Rightarrow> ('a, 'g, 'o) train_state \<Rightarrow> error + ('a, 'g, 'o) train_state" where
  "epoch fw features adj labels idx_train s =
     (let g0 = zero_grad fw (grads s)
      in case GCN_forward (gcn s) features adj of
           Inl e \<Rightarrow> Inl e
         | Inr output \<Rightarrow>
             (case index_rows output idx_train of
                Inl e \<Rightarrow> Inl e
              | Inr out_train \<Rightarrow>
                  (case index_list labels idx_train of
                     Inl e \<Rightarrow> Inl e
                   | Inr lab_train \<Rightarrow>
                       (case cross_entropy fw out_train lab_train of
                          Inl e \<Rightarrow> Inl e
                        | Inr loss \<Rightarrow>
                            (let g1 = backward fw (gcn s) g0;
                                 (o', m') = opt_step fw (opt s) (gcn s) g1
                             in Inr \<lparr>gcn = m', grads = g1, opt = o',
                                     losses = losses s @ [loss]\<rparr>)))))"

fun train_loop ::
  "('a::{semiring_0,linorder}, 'g, 'o) framework \<Rightarrow> 'a tensor2 \<Rightarrow> 'a tensor2 \<Rightarrow> int list
   \<Rightarrow> nat list \<Rightarrow> nat \<Rightarrow> ('a, 'g, 'o) train_state \<Rightarrow> error + ('a, 'g, 'o) train_state" where
  "train_loop fw features adj labels idx_train 0 s = Inr s"
| "train_loop fw features adj labels idx_train (Suc n) s =
     (case epoch fw features adj labels idx_train s of
        Inl e \<Rightarrow> Inl e
      | Inr s' \<Rightarrow> train_loop fw features adj labels idx_train n s')"

text \<open>
  The cell as a whole: the loop started with an empty list of losses, from the initial
  parameters \<open>m0\<close>, gradient buffers \<open>g0\<close> and optimizer state \<open>o0\<close>.
\<close>

definition train ::
  "('a::{semiring_0,linorder}, 'g, 'o) framework \<Rightarrow> 'a tensor2 \<Rightarrow> 'a tensor2 \<Rightarrow> int list
   \<Rightarrow> nat list \<Rightarrow> nat \<Rightarrow> 'a GCN \<Rightarrow> 'g \<Rightarrow> 'o \<Rightarrow> error + ('a, 'g, 'o) train_state" where
  "train fw features adj labels idx_train epochs m0 g0 o0 =
     train_loop fw features adj labels idx_train epochs
       \<lparr>gcn = m0, grads = g0, opt = o0, losses = []\<rparr>"

text \<open>
  What one iteration is said to do, written without the loop: the loss of a parameter
  state is the cross-entropy of the logits of all nodes restricted to the train indices,
  and one update is one optimizer step on freshly computed gradients.
\<close>

definition masked_loss ::
  "('a::{semiring_0,linorder}, 'g, 'o) framework \<Rightarrow> 'a tensor2 \<Rightarrow> 'a tensor2 \<Rightarrow> int list
   \<Rightarrow> nat list \<Rightarrow> 'a GCN \<Rightarrow> error + 'a" where
  "masked_loss fw features adj labels idx_train m =
     (case GCN_forward m features adj of
        Inl e \<Rightarrow> Inl e
      | Inr logits \<Rightarrow>
          (if list_all (\<lambda>i. i < nrows logits) idx_train
              \<and> list_all (\<lambda>i. i < length labels) idx_train
           then cross_entropy fw (take_rows idx_train logits) (take_list idx_train labels)
           else Inl IndexError))"

definition update ::
  "('a, 'g, 'o) framework \<Rightarrow> 'a GCN \<times> 'g \<times> 'o \<Rightarrow> 'a GCN \<times> 'g \<times> 'o" where
  "update fw = (\<lambda>(m, g, o1).
     let g1 = backward fw m (zero_grad fw g);
         r = opt_step fw o1 m g1
     in (snd r, g1, fst r))"

fun params_after ::
  "('a, 'g, 'o) framework \<Rightarrow> nat \<Rightarrow> 'a GCN \<times> 'g \<times> 'o \<Rightarrow> 'a GCN \<times> 'g \<times> 'o" where
  "params_after fw 0 c = c"
| "params_after fw (Suc k) c = update fw (params_after fw k c)"

section \<open>The arithmetic of \<^verbatim>\<open>float32\<close> tensors\<close>

text \<open>
  The tensors of the notebook are \<^verbatim>\<open>torch.FloatTensor\<close>s: every sum, product and quotient
  is rounded to the nearest \<^verbatim>\<open>float32\<close>, ties to the even significand. \<open>round32\<close> is that
  rounding at 24 significant bits; the exponent range is not bounded, so it agrees with
  IEEE 754 binary32 wherever the result is a normal number (magnitude from \<open>2^-126\<close> up to
  \<open>2^128\<close>), and has no infinities, NaN or subnormal numbers. \<open>binade x\<close> is the integer
  \<open>e\<close> with \<open>2^e \<le> |x| < 2^(e+1)\<close>.
\<close>

definition round_half_even :: "real \<Rightarrow> int" where
  "round_half_even q =
     (let f = \<lfloor>q\<rfloor>; d = q - of_int f
      in if d < 1 / 2 then f else if 1 / 2 < d then f + 1 else if even f then f else f + 1)"

definition binade :: "real \<Rightarrow> int" where
  "binade x = (if 1 \<le> \<bar>x\<bar> then bitlen \<lfloor>\<bar>x\<bar>\<rfloor> - 1 else - bitlen (\<lceil>1 / \<bar>x\<bar>\<rceil> - 1))"

definition round32 :: "real \<Rightarrow> real" where
  "round32 x = (let u = 2 powi (binade x - 23) in of_int (round_half_even (x / u)) * u)"

text \<open>
  The functions of the layer and of the model once more, with the rounding \<open>rnd\<close> applied
  after every arithmetic operation: \<open>rnd = round32\<close> is the program as PyTorch runs it, and
  with \<open>rnd\<close> the identity they are the functions of exact arithmetic defined above. A
  matrix product accumulates each entry from zero in index order, as \<^verbatim>\<open>torch.spmm\<close> does
  over the stored entries of a row (an absent entry of the sparse matrix adds an exact
  zero); the order inside \<^verbatim>\<open>torch.mm\<close> is the linear algebra library's and is used below
  only for inner size one, where there is one order.
\<close>

definition dot_rounded :: "(real \<Rightarrow> real) \<Rightarrow> real list \<Rightarrow> real list \<Rightarrow> real" where
  "dot_rounded rnd xs ys = foldl (\<lambda>acc (x, y). rnd (acc + rnd (x * y))) 0 (zip xs ys)"

definition mm_rounded ::
  "(real \<Rightarrow> real) \<Rightarrow> real tensor2 \<Rightarrow> real tensor2 \<Rightarrow> error + real tensor2" where
  "mm_rounded rnd X W =
     (if ncols X \<noteq> nrows W then Inl ShapeError
      else Inr (Tensor2 (ncols W)
                 (map (\<lambda>r. map (\<lambda>j. dot_rounded rnd r (column W j)) [0..<ncols W]) (rows X))))"

definition spmm_rounded ::
  "(real \<Rightarrow> real) \<Rightarrow> real tensor2 \<Rightarrow> real tensor2 \<Rightarrow> error + real tensor2" where
  "spmm_rounded rnd adj support = mm_rounded rnd adj support"

definition add_bias_rounded ::
  "(real \<Rightarrow> real) \<Rightarrow> real tensor2 \<Rightarrow> real list \<Rightarrow> error + real tensor2" where
  "add_bias_rounded rnd M b =
     (if length b = ncols M then
        Inr (Tensor2 (ncols M) (map (\<lambda>r. map2 (\<lambda>x y. rnd (x + y)) r b) (rows M)))
      else if length b = 1 then
        Inr (Tensor2 (ncols M) (map (\<lambda>r. map (\<lambda>x. rnd (x + hd b)) r) (rows M)))
      else if ncols M = 1 then
        Inr (Tensor2 (length b) (map (\<lambda>r. map (\<lambda>y. rnd (hd r + y)) b) (rows M)))
      else Inl ShapeError)"

definition GraphConvolution_forward_rounded ::
  "(real \<Rightarrow> real) \<Rightarrow> real GraphConvolution \<Rightarrow> real tensor2 \<Rightarrow> real tensor2
   \<Rightarrow> error + real tensor2" where
  "GraphConvolution_forward_rounded rnd self x adj =
     (case mm_rounded rnd x (weight self) of
        Inl e \<Rightarrow> Inl e
      | Inr support \<Rightarrow>
          (case spmm_rounded rnd adj support of
             Inl e \<Rightarrow> Inl e
           | Inr output \<Rightarrow> add_bias_rounded rnd output (bias self)))"

definition GCN_forward_rounded ::
  "(real \<Rightarrow> real) \<Rightarrow> real GCN \<Rightarrow> real tensor2 \<Rightarrow> real tensor2 \<Rightarrow> error + real tensor2" where
  "GCN_forward_rounded rnd self x adj =
     (case GraphConvolution_forward_rounded rnd (gc1 self) x adj of
        Inl e \<Rightarrow> Inl e
      | Inr x1 \<Rightarrow>
          (let x2 = relu x1
           in GraphConvolution_forward_rounded rnd (gc2 self) x2 adj))"

definition gcn_accuracy_rounded ::
  "(real \<Rightarrow> real) \<Rightarrow> real GCN \<Rightarrow> real tensor2 \<Rightarrow> real tensor2 \<Rightarrow> int list \<Rightarrow> nat list
   \<Rightarrow> error + float64" where
  "gcn_accuracy_rounded rnd model features adj labels idx_test =
     (case GCN_forward_rounded rnd model features adj of
        Inl e \<Rightarrow> Inl e
      | Inr y_pred \<Rightarrow>
          (case index_rows y_pred idx_test of
             Inl e \<Rightarrow> Inl e
           | Inr y_test \<Rightarrow>
               (case index_list labels idx_test of
                  Inl e \<Rightarrow> Inl e
                | Inr l_test \<Rightarrow> accuracy y_test l_test)))"

definition scale_rounded :: "(real \<Rightarrow> real) \<Rightarrow> real \<Rightarrow> real tensor2 \<Rightarrow> real tensor2" where
  "scale_rounded rnd a X = Tensor2 (ncols X) (map (\<lambda>r. map (\<lambda>x. rnd (a * x)) r) (rows X))"

definition tadd_rounded :: "(real \<Rightarrow> real) \<Rightarrow> real tensor2 \<Rightarrow> real tensor2 \<Rightarrow> real tensor2" where
  "tadd_rounded rnd X Y =
     Tensor2 (ncols X) (map2 (\<lambda>r s. map2 (\<lambda>x y. rnd (x + y)) r s) (rows X) (rows Y))"

definition sub_rows_rounded :: "(real \<Rightarrow> real) \<Rightarrow> real tensor2 \<Rightarrow> real list \<Rightarrow> real tensor2" where
  "sub_rows_rounded rnd M v =
     Tensor2 (ncols M) (map (\<lambda>r. map2 (\<lambda>x y. rnd (x - y)) r v) (rows M))"

text \<open>
  \<^verbatim>\<open>torch.softmax(output, 1)\<close>: every row is shifted by its maximum, exponentiated and
  divided by the sum of the exponentials.
\<close>

definition softmax_row_rounded :: "(real \<Rightarrow> real) \<Rightarrow> real list \<Rightarrow> real list" where
  "softmax_row_rounded rnd r =
     (if r = [] then []
      else
        (let m = foldr max r (hd r);
             es = map (\<lambda>x. rnd (exp (rnd (x - m)))) r;
             s = foldl (\<lambda>acc e. rnd (acc + e)) 0 es
         in map (\<lambda>e. rnd (e / s)) es))"

definition softmax_rounded :: "(real \<Rightarrow> real) \<Rightarrow> real tensor2 \<Rightarrow> real tensor2" where
  "softmax_rounded rnd M = Tensor2 (ncols M) (map (softmax_row_rounded rnd) (rows M))"

section \<open>Matrix products, entry by entry\<close>

lemma dot_sum:
  assumes "length xs = n" "length ys = n"
  shows "dot xs ys = (\<Sum>k<n. xs ! k * ys ! k)"
proof -
  have "map2 (\<lambda>x y. x * y) xs ys = map (\<lambda>k. xs ! k * ys ! k) [0..<n]"
    using assms by (intro nth_equalityI) simp_all
  then have "dot xs ys = sum_list (map (\<lambda>k. xs ! k * ys ! k) [0..<n])"
    by (simp add: dot_def)
  also have "\<dots> = (\<Sum>k<n. xs ! k * ys ! k)"
    by (simp add: interv_sum_list_conv_sum_set_nat atLeast0LessThan)
  finally show ?thesis .
qed

lemma wf_row: "wf_tensor M \<Longrightarrow> i < nrows M \<Longrightarrow> length (rows M ! i) = ncols M"
  by (simp add: wf_tensor_def nrows_def list_all_length)

lemma has_shapeI:
  "length (rows M) = n \<Longrightarrow> ncols M = c \<Longrightarrow> (\<And>i. i < n \<Longrightarrow> length (rows M ! i) = c)
   \<Longrightarrow> has_shape M n c"
  by (simp add: has_shape_def wf_tensor_def nrows_def list_all_length)

lemma mm_shape:
  assumes "ncols X = nrows W" "mm X W = Inr Y"
  shows "has_shape Y (nrows X) (ncols W)"
  using assms by (auto simp: mm_def nrows_def intro!: has_shapeI)

lemma mm_entry:
  assumes "has_shape X n m" "nrows W = m" "mm X W = Inr Y" "i < n" "j < ncols W"
  shows "entry Y i j = (\<Sum>k<m. entry X i k * entry W k j)"
proof -
  have len: "length (rows X ! i) = m"
    using assms by (simp add: has_shape_def wf_row)
  have "entry Y i j = dot (rows X ! i) (column W j)"
    using assms by (auto simp: mm_def entry_def has_shape_def nrows_def)
  also have "\<dots> = (\<Sum>k<m. rows X ! i ! k * column W j ! k)"
    using len assms(2) by (intro dot_sum) (simp_all add: column_def nrows_def)
  also have "\<dots> = (\<Sum>k<m. entry X i k * entry W k j)"
    using assms(2) by (intro sum.cong) (simp_all add: column_def entry_def nrows_def)
  finally show ?thesis .
qed

lemma mm_defined: "ncols X = nrows W \<Longrightarrow> \<exists>Y. mm X W = Inr Y"
  by (simp add: mm_def)

lemma add_bias_same:
  assumes "has_shape M n c" "length b = c"
  shows "\<exists>Y. add_bias M b = Inr Y \<and> has_shape Y n c
           \<and> (\<forall>i<n. \<forall>j<c. entry Y i j = entry M i j + b ! j)"
proof -
  let ?Y = "Tensor2 c (map (\<lambda>r. map2 (\<lambda>x y. x + y) r b) (rows M))"
  have rl: "\<And>i. i < n \<Longrightarrow> length (rows M ! i) = c"
    using assms(1) by (simp add: has_shape_def wf_row)
  have "add_bias M b = Inr ?Y"
    using assms by (simp add: add_bias_def has_shape_def)
  moreover have "has_shape ?Y n c"
    using assms rl by (intro has_shapeI) (simp_all add: has_shape_def nrows_def)
  moreover have "\<forall>i<n. \<forall>j<c. entry ?Y i j = entry M i j + b ! j"
    using assms rl by (simp add: entry_def has_shape_def nrows_def)
  ultimately show ?thesis by blast
qed

lemma GraphConvolution_forward_entries:
  assumes X: "has_shape X n n_in" and A: "has_shape A m n"
    and L: "layer_shape self n_in n_out"
  shows "\<exists>Y. GraphConvolution_forward self X A = Inr Y \<and> has_shape Y m n_out
           \<and> (\<forall>i<m. \<forall>j<n_out. entry Y i j =
                 (\<Sum>k<n. entry A i k * (\<Sum>l<n_in. entry X k l * entry (weight self) l j))
                 + bias self ! j)"
proof -
  let ?W = "weight self"
  have W: "nrows ?W = n_in" "ncols ?W = n_out" "length (bias self) = n_out"
    using L by (simp_all add: layer_shape_def)
  have Xs: "ncols X = n_in" "nrows X = n"
    using X by (simp_all add: has_shape_def)
  obtain S where S: "mm X ?W = Inr S"
    using mm_defined[of X ?W] Xs W by auto
  have Ssh: "has_shape S n n_out"
    using mm_shape[OF _ S] Xs W by simp
  have Sent: "\<And>k j. k < n \<Longrightarrow> j < n_out \<Longrightarrow>
      entry S k j = (\<Sum>l<n_in. entry X k l * entry ?W l j)"
    using mm_entry[OF X W(1) S] W(2) by simp
  have As: "ncols A = n" "nrows A = m"
    using A by (simp_all add: has_shape_def)
  obtain P where P: "mm A S = Inr P"
    using mm_defined[of A S] As Ssh by (auto simp: has_shape_def)
  have Psh: "has_shape P m n_out"
    using mm_shape[OF _ P] As Ssh by (simp add: has_shape_def)
  have Pent: "\<And>i j. i < m \<Longrightarrow> j < n_out \<Longrightarrow>
      entry P i j = (\<Sum>k<n. entry A i k * entry S k j)"
    using mm_entry[OF A _ P] Ssh by (simp add: has_shape_def)
  obtain Y where Y: "add_bias P (bias self) = Inr Y" "has_shape Y m n_out"
      "\<forall>i<m. \<forall>j<n_out. entry Y i j = entry P i j + bias self ! j"
    using add_bias_same[OF Psh W(3)] by blast
  have "GraphConvolution_forward self X A = Inr Y"
    by (simp add: GraphConvolution_forward_def S spmm_def P Y(1))
  moreover have "\<forall>i<m. \<forall>j<n_out. entry Y i j =
      (\<Sum>k<n. entry A i k * (\<Sum>l<n_in. entry X k l * entry ?W l j)) + bias self ! j"
    using Y(3) Pent Sent by simp
  ultimately show ?thesis using Y(2) by blast
qed

lemma tensor_eqI:
  assumes "has_shape Y n c" "has_shape Z n c"
    and "\<And>i j. i < n \<Longrightarrow> j < c \<Longrightarrow> entry Y i j = entry Z i j"
  shows "Y = Z"
proof -
  have "rows Y = rows Z"
  proof (rule nth_equalityI)
    show "length (rows Y) = length (rows Z)"
      using assms(1,2) by (simp add: has_shape_def nrows_def)
  next
    fix i assume "i < length (rows Y)"
    then have i: "i < n" using assms(1) by (simp add: has_shape_def nrows_def)
    have "length (rows Y ! i) = c" "length (rows Z ! i) = c"
      using i assms(1,2) by (simp_all add: has_shape_def wf_row)
    then show "rows Y ! i = rows Z ! i"
      using assms(3)[OF i] by (intro nth_equalityI) (simp_all add: entry_def)
  qed
  moreover have "ncols Y = ncols Z"
    using assms(1,2) by (simp add: has_shape_def)
  ultimately show ?thesis by (simp add: tensor2.expand)
qed

lemma scale_shape: "has_shape X n c \<Longrightarrow> has_shape (scale a X) n c"
  by (simp add: has_shape_def scale_def wf_tensor_def nrows_def list_all_length)

lemma scale_entry:
  "has_shape X n c \<Longrightarrow> i < n \<Longrightarrow> j < c \<Longrightarrow> entry (scale a X) i j = a * entry X i j"
  by (simp add: has_shape_def scale_def wf_tensor_def nrows_def list_all_length entry_def)

lemma tadd_shape: "has_shape X n c \<Longrightarrow> has_shape Y n c \<Longrightarrow> has_shape (tadd X Y) n c"
  by (simp add: has_shape_def tadd_def wf_tensor_def nrows_def list_all_length)

lemma tadd_entry:
  "has_shape X n c \<Longrightarrow> has_shape Y n c \<Longrightarrow> i < n \<Longrightarrow> j < c
   \<Longrightarrow> entry (tadd X Y) i j = entry X i j + entry Y i j"
  by (simp add: has_shape_def tadd_def wf_tensor_def nrows_def list_all_length entry_def)

lemma sub_rows_shape: "has_shape M n c \<Longrightarrow> length v = c \<Longrightarrow> has_shape (sub_rows M v) n c"
  by (simp add: has_shape_def sub_rows_def wf_tensor_def nrows_def list_all_length)

lemma sub_rows_entry:
  "has_shape M n c \<Longrightarrow> length v = c \<Longrightarrow> i < n \<Longrightarrow> j < c
   \<Longrightarrow> entry (sub_rows M v) i j = entry M i j - v ! j"
  by (simp add: has_shape_def sub_rows_def wf_tensor_def nrows_def list_all_length entry_def)

lemma propagate_linear:
  fixes a b :: "'a::comm_ring_1"
  shows "(\<Sum>k<n. A k * (\<Sum>l<m. (a * X1 k l + b * X2 k l) * W l))
       = a * (\<Sum>k<n. A k * (\<Sum>l<m. X1 k l * W l)) + b * (\<Sum>k<n. A k * (\<Sum>l<m. X2 k l * W l))"
  by (simp add: distrib_right distrib_left sum.distrib sum_distrib_left mult_ac)

section \<open>Rounding\<close>

text \<open>With the identity as rounding, the rounded functions are those of exact arithmetic.\<close>

lemma foldl_dot:
  "foldl (\<lambda>acc (x, y). acc + x * y) a (zip xs ys) = a + sum_list (map2 (\<lambda>x y. x * y) xs ys)"
  for a :: real
proof (induction xs arbitrary: a ys)
  case Nil
  then show ?case by simp
next
  case (Cons x xs)
  then show ?case by (cases ys) (simp_all add: add.assoc)
qed

lemma dot_rounded_exact: "dot_rounded (\<lambda>x. x) xs ys = dot xs ys"
  by (simp add: dot_rounded_def dot_def foldl_dot)

lemma mm_rounded_exact: "mm_rounded (\<lambda>x. x) X W = mm X W"
  by (simp add: mm_rounded_def mm_def dot_rounded_exact)

lemma add_bias_rounded_exact: "add_bias_rounded (\<lambda>x. x) M b = add_bias M b"
  by (simp add: add_bias_rounded_def add_bias_def)

lemma GraphConvolution_forward_rounded_exact:
  "GraphConvolution_forward_rounded (\<lambda>x. x) l X A = GraphConvolution_forward l X A"
  by (simp add: GraphConvolution_forward_rounded_def GraphConvolution_forward_def
      mm_rounded_exact spmm_rounded_def spmm_def add_bias_rounded_exact split: sum.splits)

lemma GCN_forward_rounded_exact: "GCN_forward_rounded (\<lambda>x. x) m X A = GCN_forward m X A"
  by (simp add: GCN_forward_rounded_def GCN_forward_def GraphConvolution_forward_rounded_exact
      split: sum.splits)

lemma gcn_accuracy_rounded_exact:
  "gcn_accuracy_rounded (\<lambda>x. x) m X A ls idx = gcn_accuracy m X A ls idx"
  by (simp add: gcn_accuracy_rounded_def gcn_accuracy_def GCN_forward_rounded_exact)

lemma entrywise_rounded_exact:
  "scale_rounded (\<lambda>x. x) a X = scale a X"
  "tadd_rounded (\<lambda>x. x) X Y = tadd X Y"
  "sub_rows_rounded (\<lambda>x. x) M v = sub_rows M v"
  by (simp_all add: scale_rounded_def scale_def tadd_rounded_def tadd_def
      sub_rows_rounded_def sub_rows_def)

lemma foldl_sum: "foldl (\<lambda>acc e. acc + e) a es = a + sum_list es" for a :: real
  by (induction es arbitrary: a) (simp_all add: add.assoc)

lemma softmax_row_rounded_exact:
  "softmax_row_rounded (\<lambda>x. x) r = map (\<lambda>x. exp x / sum_list (map exp r)) r"
proof (cases "r = []")
  case True
  then show ?thesis by (simp add: softmax_row_rounded_def)
next
  case False
  define m where "m = foldr max r (hd r)"
  define c where "c = inverse (exp m)"
  define S where "S = sum_list (map exp r)"
  have c0: "c \<noteq> 0"
    by (simp add: c_def)
  have es: "map (\<lambda>x. exp (x - m)) r = map (\<lambda>x. exp x * c) r"
    by (simp add: exp_diff divide_inverse c_def)
  have sum: "sum_list (map (\<lambda>x. exp x * c) r) = S * c"
    unfolding S_def by (rule sum_list_mult_const)
  have "softmax_row_rounded (\<lambda>x. x) r
      = map (\<lambda>e. e / (0 + sum_list (map (\<lambda>x. exp (x - m)) r))) (map (\<lambda>x. exp (x - m)) r)"
    using False by (simp add: softmax_row_rounded_def Let_def foldl_sum m_def)
  also have "\<dots> = map (\<lambda>e. e / (S * c)) (map (\<lambda>x. exp x * c) r)"
    unfolding es sum by simp
  also have "\<dots> = map (\<lambda>x. exp x / S) r"
    using c0 by simp
  finally show ?thesis
    by (simp add: S_def)
qed

lemma softmax_rounded_exact: "softmax_rounded (\<lambda>x. x) M = softmax_exact M"
  by (simp add: softmax_rounded_def softmax_exact_def softmax_row_rounded_exact)

text \<open>Values of \<open>round32\<close>: \<open>2^24 + 1\<close> is a tie and goes to the even significand.\<close>

lemma upt_small: "[0..<1] = [0]" "[0..<2] = [0, 1]"
  by (simp_all add: upt_rec)

lemma round32_0: "round32 0 = 0"
  by code_simp
lemma round32_1: "round32 1 = 1"
  by code_simp
lemma round32_2: "round32 2 = 2"
  by code_simp
lemma round32_16777215: "round32 16777215 = 16777215"
  by code_simp
lemma round32_16777216: "round32 16777216 = 16777216"
  by code_simp
lemma round32_16777217: "round32 16777217 = 16777216"
  by code_simp
lemma round32_16777218: "round32 16777218 = 16777218"
  by code_simp
lemma round32_16777220: "round32 16777220 = 16777220"
  by code_simp
lemmas round32_values = round32_0 round32_1 round32_2 round32_16777215 round32_16777216 round32_16777217 round32_16777218 round32_16777220

lemma bitlen_one: "bitlen 1 = 1"
  by code_simp

lemma round_half_even_below:
  fixes q :: real
  assumes q: "16777216 - 1 / 2 < q" "q < 16777216"
  shows "round_half_even q = 16777216"
proof -
  have f: "\<lfloor>q\<rfloor> = 16777215"
    using q by (intro floor_unique) simp_all
  have d: "1 / 2 < q - 16777215"
    using q by simp
  show ?thesis
    unfolding round_half_even_def Let_def f using d by simp
qed

lemma round32_below_one:
  assumes "1 - 1 / 2 ^ 25 < y" "y < 1"
  shows "round32 y = 1"
proof -
  have y: "1 / 2 < y" "0 < y"
    using assms(1) by simp_all
  have "1 < 1 / y" "1 / y \<le> 2"
    using y assms(2) by (simp_all add: field_simps)
  then have "\<lceil>1 / y\<rceil> = 2"
    by (intro ceiling_unique) simp_all
  then have b: "binade y = - 1"
    using y assms(2) by (simp add: binade_def bitlen_one)
  have e: "(- 1 - 23 :: int) = - 24"
    by simp
  have u: "(2 :: real) powi (- 24) = 1 / 16777216"
    by (simp add: power_int_minus)
  have q: "16777216 - 1 / 2 < y / (1 / 16777216)" "y / (1 / 16777216) < 16777216"
    using assms by simp_all
  have "round32 y = of_int (round_half_even (y / (1 / 16777216))) * (1 / 16777216)"
    unfolding round32_def Let_def b e u by (rule refl)
  also have "\<dots> = 1"
    unfolding round_half_even_below[OF q] by simp
  finally show ?thesis .
qed


lemma round32_exp_tiny: "round32 (exp (- (1 / 1073741824))) = 1"
proof (rule round32_below_one)
  have "1 + - (1 / 1073741824) \<le> exp (- (1 / 1073741824 :: real))"
    by (rule exp_ge_add_one_self)
  then show "1 - 1 / 2 ^ 25 < exp (- (1 / 1073741824 :: real))"
    by simp
  show "exp (- (1 / 1073741824 :: real)) < 1"
    by simp
qed

lemma round32_tiny: "round32 (- (1 / 1073741824)) = - (1 / 1073741824)"
  by code_simp

lemma round32_half: "round32 (1 / 2) = 1 / 2"
  by code_simp

section \<open>The graph convolution layer: forward pass\<close>

text \<open>
  C1. For a feature matrix \<open>X\<close> of shape \<open>(N, in_features)\<close>, an adjacency matrix \<open>A\<close> of
  shape \<open>(N, N)\<close> and parameters of shapes \<open>(in_features, out_features)\<close> and
  \<open>(out_features)\<close>, the forward pass of the layer raises nothing and returns a tensor of
  shape \<open>(N, out_features)\<close> whose entry \<open>(i, j)\<close> is the entry of \<open>A \<cdot> (X \<cdot> W)\<close> plus
  \<open>b[j]\<close>.
\<close>

theorem GraphConvolution_forward_correct:
  assumes "has_shape X N n_in" and "has_shape A N N" and "layer_shape self n_in n_out"
  shows "\<exists>Y. GraphConvolution_forward self X A = Inr Y
           \<and> has_shape Y N n_out
           \<and> (\<forall>i<N. \<forall>j<n_out. entry Y i j =
                 (\<Sum>k<N. entry A i k * (\<Sum>l<n_in. entry X k l * entry (weight self) l j))
                 + bias self ! j)"
  using GraphConvolution_forward_entries[OF assms] .

theorem GraphConvolution_forward_correct_witness:
  "has_shape (Tensor2 2 [[1, 2], [3, 4 :: real]]) 2 2
   \<and> has_shape (Tensor2 2 [[1, 0], [1, 1 :: real]]) 2 2
   \<and> layer_shape \<lparr>weight = Tensor2 1 [[1], [2 :: real]], bias = [10]\<rparr> 2 1
   \<and> (\<exists>Y. GraphConvolution_forward \<lparr>weight = Tensor2 1 [[1], [2 :: real]], bias = [10]\<rparr>
             (Tensor2 2 [[1, 2], [3, 4]]) (Tensor2 2 [[1, 0], [1, 1]]) = Inr Y
          \<and> has_shape Y 2 1
          \<and> (\<forall>i<2. \<forall>j<1. entry Y i j =
                (\<Sum>k<2. entry (Tensor2 2 [[1, 0], [1, 1]]) i k
                   * (\<Sum>l<2. entry (Tensor2 2 [[1, 2], [3, 4]]) k l
                        * entry (weight \<lparr>weight = Tensor2 1 [[1], [2 :: real]], bias = [10]\<rparr>) l j))
                + bias \<lparr>weight = Tensor2 1 [[1], [2 :: real]], bias = [10]\<rparr> ! j))"
proof -
  have X: "has_shape (Tensor2 2 [[1, 2], [3, 4 :: real]]) 2 2"
    by (simp add: has_shape_def wf_tensor_def nrows_def)
  have A: "has_shape (Tensor2 2 [[1, 0], [1, 1 :: real]]) 2 2"
    by (simp add: has_shape_def wf_tensor_def nrows_def)
  have L: "layer_shape \<lparr>weight = Tensor2 1 [[1], [2 :: real]], bias = [10]\<rparr> 2 1"
    by (simp add: layer_shape_def wf_tensor_def nrows_def)
  show ?thesis
    using X A L GraphConvolution_forward_correct[OF X A L] by blast
qed

text \<open>
  C2, amended. In exact arithmetic (entries in a commutative ring, nothing rounded), for
  all scalars \<open>a\<close> and \<open>b\<close>, every adjacency matrix and every parameter state,
  \<open>forward(a\<cdot>X1 + b\<cdot>X2, A) = a\<cdot>forward(X1, A) + b\<cdot>forward(X2, A) - (a+b-1)\<cdot>bias\<close> with
  the bias term broadcast across rows; with a zero bias the forward pass is linear in the
  features.
\<close>

theorem GraphConvolution_forward_affine:
  fixes a b :: "'a::comm_ring_1"
  assumes X1: "has_shape X1 N n_in" and X2: "has_shape X2 N n_in"
    and A: "has_shape A N N" and L: "layer_shape self n_in n_out"
  shows "\<exists>Y Y1 Y2.
           GraphConvolution_forward self (tadd (scale a X1) (scale b X2)) A = Inr Y
         \<and> GraphConvolution_forward self X1 A = Inr Y1
         \<and> GraphConvolution_forward self X2 A = Inr Y2
         \<and> Y = sub_rows (tadd (scale a Y1) (scale b Y2))
                  (map (\<lambda>x. (a + b - 1) * x) (bias self))
         \<and> (bias self = replicate n_out 0 \<longrightarrow> Y = tadd (scale a Y1) (scale b Y2))"
proof -
  let ?X = "tadd (scale a X1) (scale b X2)"
  let ?W = "weight self"
  let ?v = "map (\<lambda>x. (a + b - 1) * x) (bias self)"
  have bl: "length (bias self) = n_out"
    using L by (simp add: layer_shape_def)
  have Xsh: "has_shape ?X N n_in"
    using X1 X2 by (intro tadd_shape scale_shape)
  have Xent: "\<And>k l. k < N \<Longrightarrow> l < n_in \<Longrightarrow> entry ?X k l = a * entry X1 k l + b * entry X2 k l"
    by (simp add: tadd_entry[OF scale_shape[OF X1] scale_shape[OF X2]]
        scale_entry[OF X1] scale_entry[OF X2])
  obtain Y where Y: "GraphConvolution_forward self ?X A = Inr Y" "has_shape Y N n_out"
    "\<forall>i<N. \<forall>j<n_out. entry Y i j =
        (\<Sum>k<N. entry A i k * (\<Sum>l<n_in. entry ?X k l * entry ?W l j)) + bias self ! j"
    using GraphConvolution_forward_entries[OF Xsh A L] by blast
  obtain Y1 where Y1: "GraphConvolution_forward self X1 A = Inr Y1" "has_shape Y1 N n_out"
    "\<forall>i<N. \<forall>j<n_out. entry Y1 i j =
        (\<Sum>k<N. entry A i k * (\<Sum>l<n_in. entry X1 k l * entry ?W l j)) + bias self ! j"
    using GraphConvolution_forward_entries[OF X1 A L] by blast
  obtain Y2 where Y2: "GraphConvolution_forward self X2 A = Inr Y2" "has_shape Y2 N n_out"
    "\<forall>i<N. \<forall>j<n_out. entry Y2 i j =
        (\<Sum>k<N. entry A i k * (\<Sum>l<n_in. entry X2 k l * entry ?W l j)) + bias self ! j"
    using GraphConvolution_forward_entries[OF X2 A L] by blast
  let ?S = "tadd (scale a Y1) (scale b Y2)"
  have Ssh: "has_shape ?S N n_out"
    using Y1(2) Y2(2) by (intro tadd_shape scale_shape)
  have Sent: "\<And>i j. i < N \<Longrightarrow> j < n_out \<Longrightarrow> entry ?S i j = a * entry Y1 i j + b * entry Y2 i j"
    by (simp add: tadd_entry[OF scale_shape[OF Y1(2)] scale_shape[OF Y2(2)]]
        scale_entry[OF Y1(2)] scale_entry[OF Y2(2)])
  have Yent: "entry Y i j = a * entry Y1 i j + b * entry Y2 i j - (a + b - 1) * bias self ! j"
    if ij: "i < N" "j < n_out" for i j
  proof -
    have "(\<Sum>k<N. entry A i k * (\<Sum>l<n_in. entry ?X k l * entry ?W l j))
        = (\<Sum>k<N. entry A i k * (\<Sum>l<n_in. (a * entry X1 k l + b * entry X2 k l) * entry ?W l j))"
      by (intro sum.cong refl arg_cong2[where f = "(*)"]) (simp add: Xent)
    also have "\<dots> = a * (\<Sum>k<N. entry A i k * (\<Sum>l<n_in. entry X1 k l * entry ?W l j))
                   + b * (\<Sum>k<N. entry A i k * (\<Sum>l<n_in. entry X2 k l * entry ?W l j))"
      by (rule propagate_linear)
    finally show ?thesis
      using ij Y(3) Y1(3) Y2(3) by (simp add: algebra_simps)
  qed
  have main: "Y = sub_rows ?S ?v"
  proof (rule tensor_eqI[OF Y(2)])
    show "has_shape (sub_rows ?S ?v) N n_out"
      using Ssh bl by (intro sub_rows_shape) simp_all
  next
    fix i j assume ij: "i < N" "j < n_out"
    show "entry Y i j = entry (sub_rows ?S ?v) i j"
      using ij bl by (simp add: sub_rows_entry[OF Ssh] Sent Yent)
  qed
  have zero: "Y = ?S" if z: "bias self = replicate n_out 0"
  proof (rule tensor_eqI[OF Y(2) Ssh])
    fix i j assume ij: "i < N" "j < n_out"
    show "entry Y i j = entry ?S i j"
      using ij z by (simp add: Sent Yent)
  qed
  show ?thesis
    using Y(1) Y1(1) Y2(1) main zero by blast
qed

theorem GraphConvolution_forward_affine_witness:
  "has_shape (Tensor2 2 [[1, 2], [3, 4 :: real]]) 2 2
   \<and> has_shape (Tensor2 2 [[0, 1], [5, 7 :: real]]) 2 2
   \<and> has_shape (Tensor2 2 [[1, 0], [1, 1 :: real]]) 2 2
   \<and> layer_shape \<lparr>weight = Tensor2 1 [[1], [2 :: real]], bias = [10]\<rparr> 2 1
   \<and> (\<exists>Y Y1 Y2.
         GraphConvolution_forward \<lparr>weight = Tensor2 1 [[1], [2 :: real]], bias = [10]\<rparr>
           (tadd (scale 2 (Tensor2 2 [[1, 2], [3, 4]])) (scale 3 (Tensor2 2 [[0, 1], [5, 7]])))
           (Tensor2 2 [[1, 0], [1, 1]]) = Inr Y
       \<and> GraphConvolution_forward \<lparr>weight = Tensor2 1 [[1], [2 :: real]], bias = [10]\<rparr>
           (Tensor2 2 [[1, 2], [3, 4]]) (Tensor2 2 [[1, 0], [1, 1]]) = Inr Y1
       \<and> GraphConvolution_forward \<lparr>weight = Tensor2 1 [[1], [2 :: real]], bias = [10]\<rparr>
           (Tensor2 2 [[0, 1], [5, 7]]) (Tensor2 2 [[1, 0], [1, 1]]) = Inr Y2
       \<and> Y = sub_rows (tadd (scale 2 Y1) (scale 3 Y2))
                (map (\<lambda>x. (2 + 3 - 1) * x)
                   (bias \<lparr>weight = Tensor2 1 [[1], [2 :: real]], bias = [10]\<rparr>))
       \<and> (bias \<lparr>weight = Tensor2 1 [[1], [2 :: real]], bias = [10]\<rparr> = replicate 1 0
            \<longrightarrow> Y = tadd (scale 2 Y1) (scale 3 Y2)))"
proof -
  have X1: "has_shape (Tensor2 2 [[1, 2], [3, 4 :: real]]) 2 2"
    by (simp add: has_shape_def wf_tensor_def nrows_def)
  have X2: "has_shape (Tensor2 2 [[0, 1], [5, 7 :: real]]) 2 2"
    by (simp add: has_shape_def wf_tensor_def nrows_def)
  have A: "has_shape (Tensor2 2 [[1, 0], [1, 1 :: real]]) 2 2"
    by (simp add: has_shape_def wf_tensor_def nrows_def)
  have L: "layer_shape \<lparr>weight = Tensor2 1 [[1], [2 :: real]], bias = [10]\<rparr> 2 1"
    by (simp add: layer_shape_def wf_tensor_def nrows_def)
  show ?thesis
    using X1 X2 A L GraphConvolution_forward_affine[OF X1 X2 A L, of 2 3] by blast
qed

text \<open>
  C2 as stated, for the \<^verbatim>\<open>float32\<close> tensors of the program: at \<open>a = b = 1\<close>,
  \<open>X1 = [[2^24]]\<close>, \<open>X2 = [[0]]\<close>, \<open>W = [[1]]\<close>, \<open>bias = [1]\<close> and \<open>A = [[1]]\<close> the left
  side \<open>forward(a\<cdot>X1 + b\<cdot>X2, A)\<close> is \<open>16777216\<close>, and the right side, computed from
  \<open>forward(X1, A) = 16777216\<close> and \<open>forward(X2, A) = 1\<close> with \<open>(a+b-1)\<cdot>bias = 1\<close>, is
  \<open>16777215\<close>.
\<close>

theorem forward_affine_float32_counterexample:
  "GraphConvolution_forward_rounded round32 \<lparr>weight = Tensor2 1 [[1]], bias = [1]\<rparr>
      (tadd_rounded round32 (scale_rounded round32 1 (Tensor2 1 [[16777216]]))
                            (scale_rounded round32 1 (Tensor2 1 [[0]])))
      (Tensor2 1 [[1]]) = Inr (Tensor2 1 [[16777216]])
   \<and> GraphConvolution_forward_rounded round32 \<lparr>weight = Tensor2 1 [[1]], bias = [1]\<rparr>
      (Tensor2 1 [[16777216]]) (Tensor2 1 [[1]]) = Inr (Tensor2 1 [[16777216]])
   \<and> GraphConvolution_forward_rounded round32 \<lparr>weight = Tensor2 1 [[1]], bias = [1]\<rparr>
      (Tensor2 1 [[0]]) (Tensor2 1 [[1]]) = Inr (Tensor2 1 [[1]])
   \<and> sub_rows_rounded round32
        (tadd_rounded round32 (scale_rounded round32 1 (Tensor2 1 [[16777216]]))
                              (scale_rounded round32 1 (Tensor2 1 [[1]])))
        [round32 (round32 (round32 (1 + 1) - 1) * 1)] = Tensor2 1 [[16777215]]
   \<and> Tensor2 1 [[16777216 :: real]] \<noteq> Tensor2 1 [[16777215]]"
  by (simp add: GraphConvolution_forward_rounded_def mm_rounded_def spmm_rounded_def
      add_bias_rounded_def dot_rounded_def column_def nrows_def tadd_rounded_def
      scale_rounded_def sub_rows_rounded_def upt_small round32_values)

section \<open>Initialisation of the parameters\<close>

lemma gen_state_shift:
  "gen_state sample lo hi (Suc k) g = gen_state sample lo hi k (snd (sample g lo hi))"
  by (induction k) simp_all

lemma gen_state_add:
  "gen_state sample lo hi (a + b) g = gen_state sample lo hi b (gen_state sample lo hi a g)"
  by (induction b) simp_all

lemma uniform_list_draws:
  "length (fst (uniform_list sample n lo hi g)) = n
   \<and> snd (uniform_list sample n lo hi g) = gen_state sample lo hi n g
   \<and> (\<forall>k<n. fst (uniform_list sample n lo hi g) ! k
               = fst (sample (gen_state sample lo hi k g) lo hi))"
proof (induction n arbitrary: g)
  case 0
  then show ?case by simp
next
  case (Suc n)
  let ?g1 = "snd (sample g lo hi)"
  have IH: "length (fst (uniform_list sample n lo hi ?g1)) = n"
    "snd (uniform_list sample n lo hi ?g1) = gen_state sample lo hi n ?g1"
    "\<And>k. k < n \<Longrightarrow> fst (uniform_list sample n lo hi ?g1) ! k
               = fst (sample (gen_state sample lo hi k ?g1) lo hi)"
    using Suc.IH[of ?g1] by simp_all
  have nth: "fst (uniform_list sample (Suc n) lo hi g) ! k
               = fst (sample (gen_state sample lo hi k g) lo hi)" if "k < Suc n" for k
  proof (cases k)
    case 0
    then show ?thesis by (simp add: split_beta)
  next
    case (Suc k')
    then have "k' < n" using that by simp
    from IH(3)[OF this] Suc show ?thesis
      by (simp add: split_beta gen_state_shift del: gen_state.simps(2))
  qed
  show ?case
    using IH(1,2) nth
    by (simp add: split_beta gen_state_shift del: gen_state.simps(2))
qed

lemma uniform_rows_draws:
  "length (fst (uniform_rows sample r c lo hi g)) = r
   \<and> snd (uniform_rows sample r c lo hi g) = gen_state sample lo hi (r * c) g
   \<and> (\<forall>i<r. length (fst (uniform_rows sample r c lo hi g) ! i) = c
          \<and> (\<forall>j<c. fst (uniform_rows sample r c lo hi g) ! i ! j
                 = fst (sample (gen_state sample lo hi (i * c + j) g) lo hi)))"
proof (induction r arbitrary: g)
  case 0
  then show ?case by simp
next
  case (Suc r)
  let ?g1 = "gen_state sample lo hi c g"
  note L = uniform_list_draws[of sample c lo hi g]
  have g1: "snd (uniform_list sample c lo hi g) = ?g1"
    using L by simp
  have IH: "length (fst (uniform_rows sample r c lo hi ?g1)) = r"
    "snd (uniform_rows sample r c lo hi ?g1) = gen_state sample lo hi (r * c) ?g1"
    "\<And>i. i < r \<Longrightarrow> length (fst (uniform_rows sample r c lo hi ?g1) ! i) = c"
    "\<And>i j. i < r \<Longrightarrow> j < c \<Longrightarrow> fst (uniform_rows sample r c lo hi ?g1) ! i ! j
                 = fst (sample (gen_state sample lo hi (i * c + j) ?g1) lo hi)"
    using Suc.IH[of ?g1] by simp_all
  have rows: "fst (uniform_rows sample (Suc r) c lo hi g)
      = fst (uniform_list sample c lo hi g) # fst (uniform_rows sample r c lo hi ?g1)"
    by (simp add: split_beta g1)
  have st: "snd (uniform_rows sample (Suc r) c lo hi g) = gen_state sample lo hi (Suc r * c) g"
    using IH(2) by (simp add: split_beta g1 gen_state_add[symmetric] add.commute)
  have ent: "length (fst (uniform_rows sample (Suc r) c lo hi g) ! i) = c
          \<and> (\<forall>j<c. fst (uniform_rows sample (Suc r) c lo hi g) ! i ! j
                 = fst (sample (gen_state sample lo hi (i * c + j) g) lo hi))"
    if "i < Suc r" for i
  proof (cases i)
    case 0
    then show ?thesis using L by (simp add: rows del: uniform_rows.simps)
  next
    case (Suc i')
    then have i': "i' < r" using that by simp
    have "gen_state sample lo hi (i' * c + j) ?g1 = gen_state sample lo hi (Suc i' * c + j) g" for j
      by (simp add: gen_state_add[symmetric] add.assoc)
    then show ?thesis
      using IH(3)[OF i'] IH(4)[OF i'] Suc by (simp add: rows del: uniform_rows.simps)
  qed
  show ?case
    using IH(1) st ent by (simp add: rows del: uniform_rows.simps)
qed

text \<open>
  C3. For positive \<open>out_features\<close> the constructor raises nothing and returns parameters
  of shapes \<open>(in_features, out_features)\<close> and \<open>(out_features)\<close>; every entry of the
  weight and every entry of the bias is its own draw of the sampler from the uniform
  distribution between \<open>-1/\<surd>out_features\<close> and \<open>1/\<surd>out_features\<close>, each draw
  in the generator state the previous draw left. The bounds of the bias draws are those
  of the weight draws: they depend on \<open>out_features\<close> only. If the sampler keeps
  its draws between its bounds, every entry lies between them.
\<close>

theorem reset_parameters_uniform:
  assumes "0 < n_out"
  shows "\<exists>l g'. GraphConvolution_init sample n_in n_out g = Inr (l, g')
           \<and> layer_shape l n_in n_out
           \<and> (\<forall>i<n_in. \<forall>j<n_out. entry (weight l) i j =
                 fst (sample (gen_state sample (- (1 / sqrt (real n_out))) (1 / sqrt (real n_out))
                                (i * n_out + j) g)
                        (- (1 / sqrt (real n_out))) (1 / sqrt (real n_out))))
           \<and> (\<forall>j<n_out. bias l ! j =
                 fst (sample (gen_state sample (- (1 / sqrt (real n_out))) (1 / sqrt (real n_out))
                                (n_in * n_out + j) g)
                        (- (1 / sqrt (real n_out))) (1 / sqrt (real n_out))))
           \<and> ((\<forall>h lo hi. lo \<le> hi \<longrightarrow> lo \<le> fst (sample h lo hi) \<and> fst (sample h lo hi) \<le> hi)
                \<longrightarrow> (\<forall>i<n_in. \<forall>j<n_out. \<bar>entry (weight l) i j\<bar> \<le> 1 / sqrt (real n_out))
                  \<and> (\<forall>j<n_out. \<bar>bias l ! j\<bar> \<le> 1 / sqrt (real n_out)))"
proof -
  let ?s = "1 / sqrt (real n_out)"
  let ?W = "uniform_rows sample n_in n_out (- ?s) ?s g"
  let ?B = "uniform_list sample n_out (- ?s) ?s (snd ?W)"
  let ?l = "\<lparr>weight = Tensor2 n_out (fst ?W), bias = fst ?B\<rparr>"
  have pos: "0 < ?s" "sqrt (real n_out) \<noteq> 0"
    using assms by simp_all
  note R = uniform_rows_draws[of sample n_in n_out "- ?s" ?s g]
  note L = uniform_list_draws[of sample n_out "- ?s" ?s "snd ?W"]
  have init: "GraphConvolution_init sample n_in n_out g = Inr (?l, snd ?B)"
    using pos(2) by (simp add: GraphConvolution_init_def Let_def split_beta)
  have shape: "layer_shape ?l n_in n_out"
    using R L by (simp add: layer_shape_def wf_tensor_def nrows_def list_all_length)
  have went: "\<forall>i<n_in. \<forall>j<n_out. entry (weight ?l) i j =
       fst (sample (gen_state sample (- ?s) ?s (i * n_out + j) g) (- ?s) ?s)"
    using R by (simp add: entry_def)
  have bent: "\<forall>j<n_out. bias ?l ! j =
       fst (sample (gen_state sample (- ?s) ?s (n_in * n_out + j) g) (- ?s) ?s)"
    using R L by (simp add: gen_state_add)
  have rng: "(\<forall>i<n_in. \<forall>j<n_out. \<bar>entry (weight ?l) i j\<bar> \<le> ?s) \<and> (\<forall>j<n_out. \<bar>bias ?l ! j\<bar> \<le> ?s)"
    if S: "\<forall>h lo hi. lo \<le> hi \<longrightarrow> lo \<le> fst (sample h lo hi) \<and> fst (sample h lo hi) \<le> hi"
  proof -
    have "\<bar>fst (sample h (- ?s) ?s)\<bar> \<le> ?s" for h
      using S[rule_format, of "- ?s" ?s h] pos(1) by (simp add: abs_le_iff)
    then show ?thesis
      using went bent by simp
  qed
  show ?thesis
    using init shape went bent rng by blast
qed

theorem reset_parameters_uniform_witness:
  "(\<exists>l g'. GraphConvolution_init (\<lambda>g lo hi. (lo + (hi - lo) * (1 / (real g + 2)), Suc g)) 1 4
               (0 :: nat) = Inr (l, g')
           \<and> layer_shape l 1 4
           \<and> (\<forall>i<1. \<forall>j<4. entry (weight l) i j =
                 fst ((\<lambda>g lo hi. (lo + (hi - lo) * (1 / (real g + 2)), Suc g))
                        (gen_state (\<lambda>g lo hi. (lo + (hi - lo) * (1 / (real g + 2)), Suc g))
                           (- (1 / sqrt (real 4))) (1 / sqrt (real 4)) (i * 4 + j) 0)
                        (- (1 / sqrt (real 4))) (1 / sqrt (real 4))))
           \<and> (\<forall>j<4. bias l ! j =
                 fst ((\<lambda>g lo hi. (lo + (hi - lo) * (1 / (real g + 2)), Suc g))
                        (gen_state (\<lambda>g lo hi. (lo + (hi - lo) * (1 / (real g + 2)), Suc g))
                           (- (1 / sqrt (real 4))) (1 / sqrt (real 4)) (1 * 4 + j) 0)
                        (- (1 / sqrt (real 4))) (1 / sqrt (real 4))))
           \<and> (\<forall>i<1. \<forall>j<4. \<bar>entry (weight l) i j\<bar> \<le> 1 / sqrt (real 4))
           \<and> (\<forall>j<4. \<bar>bias l ! j\<bar> \<le> 1 / sqrt (real 4)))
   \<and> GraphConvolution_init (\<lambda>g lo hi. (lo + (hi - lo) * (1 / (real g + 2)), Suc g)) 1 4 (0 :: nat)
       = Inr (\<lparr>weight = Tensor2 4 [[0, - 1 / 6, - 1 / 4, - 3 / 10]],
                bias = [- 1 / 3, - 5 / 14, - 3 / 8, - 7 / 18]\<rparr>, 8)"
proof -
  let ?sample = "\<lambda>(g :: nat) (lo :: real) hi. (lo + (hi - lo) * (1 / (real g + 2)), Suc g)"
  have S: "\<forall>h lo hi. lo \<le> hi \<longrightarrow> lo \<le> fst (?sample h lo hi) \<and> fst (?sample h lo hi) \<le> hi"
  proof (intro allI impI)
    fix h :: nat and lo hi :: real
    assume le: "lo \<le> hi"
    have t: "0 \<le> 1 / (real h + 2)" "1 / (real h + 2) \<le> 1"
      by simp_all
    have "0 \<le> (hi - lo) * (1 / (real h + 2))"
      using le t(1) by (intro mult_nonneg_nonneg) simp_all
    moreover have "(hi - lo) * (1 / (real h + 2)) \<le> (hi - lo) * 1"
      using le t(2) by (intro mult_left_mono) simp_all
    ultimately show "lo \<le> fst (?sample h lo hi) \<and> fst (?sample h lo hi) \<le> hi"
      by simp
  qed
  have v: "GraphConvolution_init ?sample 1 4 0
       = Inr (\<lparr>weight = Tensor2 4 [[0, - 1 / 6, - 1 / 4, - 3 / 10]],
                bias = [- 1 / 3, - 5 / 14, - 3 / 8, - 7 / 18]\<rparr>, 8)"
    by (simp add: GraphConvolution_init_def Let_def eval_nat_numeral)
  have pos: "(0 :: nat) < 4"
    by simp
  have mp: "\<And>A B C D E F S. \<exists>l g'. A l g' \<and> B l g' \<and> C l g' \<and> D l g' \<and> (S \<longrightarrow> E l g' \<and> F l g')
      \<Longrightarrow> S \<Longrightarrow> \<exists>l (g' :: nat). A (l :: real GraphConvolution) g' \<and> B l g' \<and> C l g' \<and> D l g'
              \<and> E l g' \<and> F l g'"
    by blast
  show ?thesis
    by (intro conjI v mp[OF reset_parameters_uniform[OF pos, of ?sample 1 0] S])
qed

section \<open>The two-layer model: composition\<close>

lemma relu_shape: "has_shape H n c \<Longrightarrow> has_shape (relu H) n c"
  by (simp add: has_shape_def relu_def wf_tensor_def nrows_def list_all_length)

lemma relu_entry:
  "has_shape H n c \<Longrightarrow> i < n \<Longrightarrow> j < c \<Longrightarrow> entry (relu H) i j = max 0 (entry H i j)"
  by (simp add: has_shape_def relu_def wf_tensor_def nrows_def list_all_length entry_def)

text \<open>
  C4. \<open>GCN.forward(X, A)\<close> is \<open>gc2.forward(relu(gc1.forward(X, A)), A)\<close>: the rectifier is
  applied once, to the output of the first layer, and the value returned is the output of
  the second layer as it is, the \<open>N \<times> num_classes\<close> logits with no softmax applied. An
  exception of either layer is passed on.
\<close>

theorem GCN_forward_composition:
  assumes X: "has_shape X N n_in" and A: "has_shape A N N"
    and M: "gcn_shape self n_in n_hid n_cls"
  shows "(\<exists>H Y. GraphConvolution_forward (gc1 self) X A = Inr H
              \<and> GraphConvolution_forward (gc2 self) (relu H) A = Inr Y
              \<and> GCN_forward self X A = Inr Y
              \<and> has_shape Y N n_cls
              \<and> (\<forall>i<N. \<forall>j<n_cls. entry Y i j =
                    (\<Sum>k<N. entry A i k
                       * (\<Sum>l<n_hid. max 0 (entry H k l) * entry (weight (gc2 self)) l j))
                    + bias (gc2 self) ! j))
       \<and> GCN_forward self X A =
           (case GraphConvolution_forward (gc1 self) X A of
              Inl e \<Rightarrow> Inl e
            | Inr H \<Rightarrow> GraphConvolution_forward (gc2 self) (relu H) A)"
proof -
  have L1: "layer_shape (gc1 self) n_in n_hid" and L2: "layer_shape (gc2 self) n_hid n_cls"
    using M by (simp_all add: gcn_shape_def)
  obtain H where H: "GraphConvolution_forward (gc1 self) X A = Inr H" "has_shape H N n_hid"
    using GraphConvolution_forward_entries[OF X A L1] by blast
  have R: "has_shape (relu H) N n_hid"
    using H(2) by (rule relu_shape)
  obtain Y where Y: "GraphConvolution_forward (gc2 self) (relu H) A = Inr Y"
    "has_shape Y N n_cls"
    "\<forall>i<N. \<forall>j<n_cls. entry Y i j =
        (\<Sum>k<N. entry A i k * (\<Sum>l<n_hid. entry (relu H) k l * entry (weight (gc2 self)) l j))
        + bias (gc2 self) ! j"
    using GraphConvolution_forward_entries[OF R A L2] by blast
  have ent: "\<forall>i<N. \<forall>j<n_cls. entry Y i j =
        (\<Sum>k<N. entry A i k * (\<Sum>l<n_hid. max 0 (entry H k l) * entry (weight (gc2 self)) l j))
        + bias (gc2 self) ! j"
    using Y(3) by (simp add: relu_entry[OF H(2)])
  have "GCN_forward self X A = Inr Y"
    by (simp add: GCN_forward_def H(1) Y(1))
  moreover have "GCN_forward self X A =
           (case GraphConvolution_forward (gc1 self) X A of
              Inl e \<Rightarrow> Inl e
            | Inr H \<Rightarrow> GraphConvolution_forward (gc2 self) (relu H) A)"
    by (simp add: GCN_forward_def Let_def split: sum.splits)
  ultimately show ?thesis
    using H(1) Y(1,2) ent by blast
qed

theorem GCN_forward_composition_witness:
  "has_shape (Tensor2 2 [[1, 2], [3, 4 :: real]]) 2 2
   \<and> has_shape (Tensor2 2 [[1, 0], [1, 1 :: real]]) 2 2
   \<and> gcn_shape \<lparr>gc1 = \<lparr>weight = Tensor2 2 [[1, - 1], [- 1, 1 :: real]], bias = [0, 0]\<rparr>,
                 gc2 = \<lparr>weight = Tensor2 1 [[1], [- 2]], bias = [- 10]\<rparr>\<rparr> 2 2 1
   \<and> GraphConvolution_forward \<lparr>weight = Tensor2 2 [[1, - 1], [- 1, 1 :: real]], bias = [0, 0]\<rparr>
        (Tensor2 2 [[1, 2], [3, 4]]) (Tensor2 2 [[1, 0], [1, 1]])
      = Inr (Tensor2 2 [[- 1, 1], [- 2, 2]])
   \<and> GCN_forward \<lparr>gc1 = \<lparr>weight = Tensor2 2 [[1, - 1], [- 1, 1 :: real]], bias = [0, 0]\<rparr>,
                   gc2 = \<lparr>weight = Tensor2 1 [[1], [- 2]], bias = [- 10]\<rparr>\<rparr>
        (Tensor2 2 [[1, 2], [3, 4]]) (Tensor2 2 [[1, 0], [1, 1]])
      = Inr (Tensor2 1 [[- 12], [- 16]])"
proof -
  let ?X = "Tensor2 2 [[1, 2], [3, 4 :: real]]"
  let ?A = "Tensor2 2 [[1, 0], [1, 1 :: real]]"
  let ?g1 = "\<lparr>weight = Tensor2 2 [[1, - 1], [- 1, 1 :: real]], bias = [0, 0]\<rparr>"
  let ?g2 = "\<lparr>weight = Tensor2 1 [[1], [- 2 :: real]], bias = [- 10]\<rparr>"
  have X: "has_shape ?X 2 2"
    by (simp add: has_shape_def wf_tensor_def nrows_def)
  have A: "has_shape ?A 2 2"
    by (simp add: has_shape_def wf_tensor_def nrows_def)
  have M: "gcn_shape \<lparr>gc1 = ?g1, gc2 = ?g2\<rparr> 2 2 1"
    by (simp add: gcn_shape_def layer_shape_def wf_tensor_def nrows_def)
  have upt2: "[0..<2] = [0, 1]" "[0..<1] = [0]"
    by (simp_all add: upt_rec)
  have H: "GraphConvolution_forward ?g1 ?X ?A = Inr (Tensor2 2 [[- 1, 1], [- 2, 2]])"
    by (simp add: GraphConvolution_forward_def mm_def spmm_def add_bias_def dot_def
        column_def nrows_def upt2)
  have Y: "GraphConvolution_forward ?g2 (relu (Tensor2 2 [[- 1, 1], [- 2, 2]])) ?A
             = Inr (Tensor2 1 [[- 12], [- 16]])"
    by (simp add: GraphConvolution_forward_def mm_def spmm_def add_bias_def dot_def
        column_def nrows_def relu_def upt2)
  have "GCN_forward \<lparr>gc1 = ?g1, gc2 = ?g2\<rparr> ?X ?A = Inr (Tensor2 1 [[- 12], [- 16]])"
    using GCN_forward_composition[OF X A M] H Y by simp
  then show ?thesis
    using X A M H by simp
qed

section \<open>Accuracy: the first maximum of a row\<close>

lemma argmax_from_first_max:
  "is_first_max pre best \<Longrightarrow> bv = pre ! best \<Longrightarrow> i = length pre
   \<Longrightarrow> is_first_max (pre @ xs) (argmax_from best bv i xs)"
proof (induction xs arbitrary: pre best bv i)
  case Nil
  then show ?case by simp
next
  case (Cons x xs)
  show ?case
  proof (cases "bv < x")
    case True
    have "is_first_max (pre @ [x]) i"
      using Cons.prems True unfolding is_first_max_def
      by (auto simp: nth_append less_Suc_eq intro: le_less_trans)
    from Cons.IH[OF this, of x "Suc i"] Cons.prems True show ?thesis by simp
  next
    case False
    have "is_first_max (pre @ [x]) best"
      using Cons.prems False unfolding is_first_max_def
      by (auto simp: nth_append less_Suc_eq)
    from Cons.IH[OF this, of bv "Suc i"] Cons.prems False show ?thesis
      by (simp add: nth_append is_first_max_def)
  qed
qed

lemma argmax_first_max: "r \<noteq> [] \<Longrightarrow> is_first_max r (argmax r)"
proof (cases r)
  case Nil
  assume "r \<noteq> []"
  with Nil show ?thesis by simp
next
  case (Cons x xs)
  have "is_first_max [x] 0"
    by (simp add: is_first_max_def)
  from argmax_from_first_max[OF this, of x 1 xs] Cons show ?thesis
    by (simp add: argmax_def)
qed

lemma is_first_max_unique: "is_first_max r k \<Longrightarrow> is_first_max r k' \<Longrightarrow> k = k'"
proof (rule ccontr)
  assume a: "is_first_max r k" "is_first_max r k'" and "k \<noteq> k'"
  then consider "k < k'" | "k' < k" by linarith
  then show False
  proof cases
    case 1
    then have "r ! k < r ! k'" "r ! k' \<le> r ! k"
      using a by (auto simp: is_first_max_def)
    then show False by simp
  next
    case 2
    then have "r ! k' < r ! k" "r ! k \<le> r ! k'"
      using a by (auto simp: is_first_max_def)
    then show False by simp
  qed
qed

lemma argmax_iff: "r \<noteq> [] \<Longrightarrow> is_first_max r k \<longleftrightarrow> argmax r = k"
  using argmax_first_max is_first_max_unique by blast

lemma count_sum:
  "sum_list (map (\<lambda>i. if P i then 1 else 0) [0..<n]) = real (card {i. i < n \<and> P i})"
proof -
  have "sum_list (map (\<lambda>i. if P i then 1 else 0) [0..<n]) = (\<Sum>i<n. of_bool (P i) :: real)"
    by (simp add: interv_sum_list_conv_sum_set_nat atLeast0LessThan of_bool_def)
  also have "\<dots> = real (card ({..<n} \<inter> {i. P i}))"
    by (rule sum_of_bool_eq) simp_all
  also have "{..<n} \<inter> {i. P i} = {i. i < n \<and> P i}"
    by auto
  finally show ?thesis .
qed

lemma get_predictions_equal_length:
  assumes "0 < ncols output" "length labels = length (rows output)"
  shows "get_predictions output labels =
     Inr (map (\<lambda>i. if int (argmax (rows output ! i)) = labels ! i then 1 else 0)
            [0..<length labels])"
proof -
  have "map2 (\<lambda>p l. p = l) (map int (map argmax (rows output))) labels
      = map (\<lambda>i. int (argmax (rows output ! i)) = labels ! i) [0..<length labels]"
    using assms(2) by (intro nth_equalityI) simp_all
  then show ?thesis
    using assms by (simp add: get_predictions_def max_dim1_def eq_broadcast_def o_def)
qed

text \<open>
  C5. For a non-empty logits matrix and one label per row, \<open>accuracy\<close> returns the number
  of rows whose first maximal position equals the label, divided by the number of rows.
\<close>

theorem accuracy_fraction:
  assumes "has_shape output N C" and "0 < N" and "0 < C" and "length labels = N"
  shows "accuracy output labels =
     Inr (Finite (real (card {i. i < N \<and>
                           (\<exists>k. is_first_max (rows output ! i) k \<and> labels ! i = int k)})
                  / real N))"
proof -
  have len: "length labels = length (rows output)" and c: "0 < ncols output"
    using assms by (simp_all add: has_shape_def nrows_def)
  have row: "rows output ! i \<noteq> []" if "i < N" for i
    using that assms(1,3) wf_row[of "output" i] by (auto simp: has_shape_def)
  have same: "{i. i < N \<and> int (argmax (rows output ! i)) = labels ! i}
            = {i. i < N \<and> (\<exists>k. is_first_max (rows output ! i) k \<and> labels ! i = int k)}"
    using argmax_iff[OF row] by auto
  have "accuracy output labels =
      Inr (true_divide (real (card {i. i < N \<and> int (argmax (rows output ! i)) = labels ! i})) N)"
    using assms(4)
    by (simp add: accuracy_def get_predictions_equal_length[OF c len] count_sum)
  then show ?thesis
    using assms(2) by (simp add: true_divide_def same)
qed

theorem accuracy_fraction_witness:
  "has_shape (Tensor2 3 [[1, 5, 5], [2, 0, 1], [0, 0, 7 :: real]]) 3 3
   \<and> (0 :: nat) < 3 \<and> length [1, 0, 1 :: int] = 3
   \<and> accuracy (Tensor2 3 [[1, 5, 5], [2, 0, 1], [0, 0, 7 :: real]]) [1, 0, 1]
       = Inr (Finite (real (card {i. i < 3 \<and>
            (\<exists>k. is_first_max (rows (Tensor2 3 [[1, 5, 5], [2, 0, 1], [0, 0, 7 :: real]]) ! i) k
                 \<and> [1, 0, 1 :: int] ! i = int k)}) / real 3))
   \<and> accuracy (Tensor2 3 [[1, 5, 5], [2, 0, 1], [0, 0, 7 :: real]]) [1, 0, 1]
       = Inr (Finite (2 / 3))"
proof -
  have S: "has_shape (Tensor2 3 [[1, 5, 5], [2, 0, 1], [0, 0, 7 :: real]]) 3 3"
    by (simp add: has_shape_def wf_tensor_def nrows_def)
  have V: "accuracy (Tensor2 3 [[1, 5, 5], [2, 0, 1], [0, 0, 7 :: real]]) [1, 0, 1]
       = Inr (Finite (2 / 3))"
    by (simp add: accuracy_def get_predictions_def max_dim1_def eq_broadcast_def argmax_def
        true_divide_def)
  show ?thesis
    using S V accuracy_fraction[OF S, of "[1, 0, 1]"] by simp
qed

text \<open>
  C6. On an index set of size zero, that is on logits of shape \<open>(0, C)\<close> with \<open>C > 0\<close> and
  an empty label vector, \<open>accuracy\<close> raises no exception: the sum of the empty tensor is
  \<open>0.0\<close>, and \<open>0.0 / 0\<close> is NaN, which is returned.
\<close>

theorem accuracy_empty_nan:
  "0 < C \<Longrightarrow> accuracy (Tensor2 C []) [] = Inr NaN"
  by (simp add: accuracy_def get_predictions_def max_dim1_def eq_broadcast_def true_divide_def)

theorem accuracy_empty_nan_witness:
  "(0 :: nat) < 7 \<and> accuracy (Tensor2 7 ([] :: real list list)) [] = Inr NaN"
  using accuracy_empty_nan[of 7, where 'a = real] by simp

text \<open>
  The same at the shape \<open>(0, 7)\<close> of the notebook's logits under an empty index set: the
  result is a value, not an exception.
\<close>

theorem accuracy_empty_no_error:
  "\<not> isl (accuracy (Tensor2 7 ([] :: real list list)) [])
   \<and> accuracy (Tensor2 7 ([] :: real list list)) [] = Inr NaN"
  by (simp add: accuracy_def get_predictions_def max_dim1_def eq_broadcast_def true_divide_def)

section \<open>Accuracy under increasing maps of the logits\<close>

lemma argmax_from_strict_mono:
  "strict_mono f \<Longrightarrow> argmax_from best (f bv) i (map f xs) = argmax_from best bv i xs"
  by (induction xs arbitrary: best bv i) (simp_all add: strict_mono_less)

lemma argmax_strict_mono: "strict_mono f \<Longrightarrow> argmax (map f r) = argmax r"
  by (cases r) (simp_all add: argmax_def argmax_from_strict_mono)

lemma max_dim1_map_rows:
  assumes "\<forall>i<nrows M. strict_mono (f i)"
  shows "max_dim1 (map_rows f M) = max_dim1 M"
proof -
  have "map argmax (map2 (\<lambda>i r. map (f i) r) [0..<length (rows M)] (rows M))
      = map argmax (rows M)"
    using assms by (intro nth_equalityI) (simp_all add: argmax_strict_mono nrows_def)
  then show ?thesis
    by (simp add: max_dim1_def map_rows_def)
qed

lemma softmax_row_argmax:
  "argmax (map (\<lambda>x. exp x / sum_list (map exp r)) r) = argmax (r :: real list)"
proof (cases r)
  case Nil
  then show ?thesis by simp
next
  case (Cons x xs)
  have "0 \<le> sum_list (map exp xs)"
    by (rule sum_list_nonneg) auto
  then have pos: "0 < sum_list (map exp r)"
    using Cons by (simp add: add_pos_nonneg)
  have "strict_mono (\<lambda>x. exp x / sum_list (map exp r))"
    using pos by (simp add: strict_mono_def divide_strict_right_mono)
  then show ?thesis
    by (rule argmax_strict_mono)
qed

lemma max_dim1_softmax: "max_dim1 (softmax_exact M) = max_dim1 M"
  by (simp add: max_dim1_def softmax_exact_def o_def softmax_row_argmax)

lemma accuracy_max_dim1:
  "max_dim1 M' = max_dim1 M \<Longrightarrow> accuracy M' labels = accuracy M labels"
  by (simp add: accuracy_def get_predictions_def)

text \<open>
  C10, amended. The value of \<open>accuracy\<close> does not change when a strictly increasing
  function is applied to the entries of each row of the logits (one function per row),
  since it depends on the logits only through the position of the first maximum of each
  row. A row-wise softmax computed without rounding is such a map, so raw logits and
  exact softmax probabilities have the same accuracy.
\<close>

theorem accuracy_strict_mono_invariant:
  assumes "\<forall>i<nrows output. strict_mono (f i)"
  shows "accuracy (map_rows f output) labels = accuracy output labels
       \<and> accuracy (softmax_rounded (\<lambda>x. x) logits) labels = accuracy logits labels"
  unfolding softmax_rounded_exact
  by (intro conjI accuracy_max_dim1 max_dim1_map_rows[OF assms] max_dim1_softmax)

theorem accuracy_strict_mono_invariant_witness:
  "accuracy (map_rows (\<lambda>i x. 2 * x + real i) (Tensor2 2 [[1, 3], [2, 0 :: real]])) [1, 1]
       = accuracy (Tensor2 2 [[1, 3], [2, 0 :: real]]) [1, 1]
   \<and> accuracy (softmax_rounded (\<lambda>x. x) (Tensor2 2 [[1, 3], [2, 0]])) [1, 1]
       = accuracy (Tensor2 2 [[1, 3], [2, 0 :: real]]) [1, 1]
   \<and> accuracy (Tensor2 2 [[1, 3], [2, 0 :: real]]) [1, 1] = Inr (Finite (1 / 2))"
proof -
  have m: "\<forall>i<nrows (Tensor2 2 [[1, 3], [2, 0 :: real]]). strict_mono (\<lambda>x :: real. 2 * x + real i)"
    by (simp add: strict_mono_def)
  have v: "accuracy (Tensor2 2 [[1, 3], [2, 0 :: real]]) [1, 1] = Inr (Finite (1 / 2))"
    by (simp add: accuracy_def get_predictions_def max_dim1_def eq_broadcast_def argmax_def
        true_divide_def)
  show ?thesis
    using v accuracy_strict_mono_invariant[OF m,
        where labels = "[1, 1]" and logits = "Tensor2 2 [[1, 3], [2, 0]]"]
    by simp
qed

text \<open>
  C10 as stated, for the \<^verbatim>\<open>float32\<close> softmax of the program: on the logits
  \<open>[[0, 2^-30]]\<close> with label \<open>1\<close> the accuracy is \<open>1\<close>; the softmax rounds
  \<open>exp(-2^-30)\<close> to \<open>1\<close> and returns \<open>[[0.5, 0.5]]\<close>, whose first maximum is at position
  \<open>0\<close>, and the accuracy on it is \<open>0\<close>.
\<close>

theorem accuracy_softmax_float32_counterexample:
  "accuracy (Tensor2 2 [[0, 1 / 1073741824 :: real]]) [1] = Inr (Finite 1)
   \<and> accuracy (softmax_rounded round32 (Tensor2 2 [[0, 1 / 1073741824]])) [1] = Inr (Finite 0)
   \<and> softmax_rounded round32 (Tensor2 2 [[0, 1 / 1073741824]]) = Tensor2 2 [[1 / 2, 1 / 2]]
   \<and> Finite 1 \<noteq> Finite 0"
proof -
  have s: "softmax_rounded round32 (Tensor2 2 [[0, 1 / 1073741824]]) = Tensor2 2 [[1 / 2, 1 / 2]]"
    by (simp add: softmax_rounded_def softmax_row_rounded_def Let_def round32_tiny round32_0 round32_1 round32_2
        round32_half round32_exp_tiny)
  show ?thesis
    unfolding s
    by (simp add: accuracy_def get_predictions_def max_dim1_def eq_broadcast_def argmax_def
        true_divide_def)
qed

section \<open>The identity adjacency matrix\<close>

lemma eye_shape: "has_shape (eye n) n n"
  by (simp add: has_shape_def eye_def wf_tensor_def nrows_def list_all_length)

lemma eye_entry: "i < n \<Longrightarrow> k < n \<Longrightarrow> entry (eye n) i k = (if i = k then 1 else 0)"
  by (simp add: eye_def entry_def)

lemma mm_eye:
  assumes S: "has_shape S n c"
  shows "mm (eye n) S = Inr S"
proof -
  have Sn: "nrows S = n" "ncols S = c"
    using S by (simp_all add: has_shape_def)
  have En: "ncols (eye n :: 'a tensor2) = n" "nrows (eye n :: 'a tensor2) = n"
    by (simp_all add: eye_def nrows_def)
  obtain P where P: "mm (eye n) S = Inr P"
    using mm_defined[of "eye n" S] Sn En by auto
  have Psh: "has_shape P n c"
    using mm_shape[of "eye n" S P] P Sn En by simp
  have "P = S"
  proof (rule tensor_eqI[OF Psh S])
    fix i j assume ij: "i < n" "j < c"
    have "entry P i j = (\<Sum>k<n. entry (eye n) i k * entry S k j)"
      using mm_entry[OF eye_shape Sn(1) P ij(1)] ij(2) Sn(2) by simp
    also have "\<dots> = (\<Sum>k<n. if i = k then entry S k j else 0)"
      using ij(1) by (intro sum.cong refl) (simp add: eye_entry)
    also have "\<dots> = entry S i j"
      using ij(1) by (simp add: sum.delta')
    finally show "entry P i j = entry S i j" .
  qed
  then show ?thesis using P by simp
qed

lemma GraphConvolution_forward_eye:
  assumes X: "has_shape X N n_in" and L: "layer_shape l n_in n_out"
  shows "GraphConvolution_forward l X (eye N) = Inr (Tensor2 n_out (map (linear_row l) (rows X)))"
proof -
  let ?W = "weight l"
  let ?S = "Tensor2 n_out (map (\<lambda>r. map (\<lambda>j. dot r (column ?W j)) [0..<n_out]) (rows X))"
  have W: "nrows ?W = n_in" "ncols ?W = n_out" "length (bias l) = n_out"
    using L by (simp_all add: layer_shape_def)
  have Xs: "ncols X = n_in" "nrows X = N"
    using X by (simp_all add: has_shape_def)
  have S: "mm X ?W = Inr ?S"
    using W Xs by (simp add: mm_def)
  have Ssh: "has_shape ?S N n_out"
    using mm_shape[OF _ S] W Xs by simp
  have B: "add_bias ?S (bias l) = Inr (Tensor2 n_out (map (linear_row l) (rows X)))"
    using W by (simp add: add_bias_def linear_row_def o_def)
  show ?thesis
    by (simp add: GraphConvolution_forward_def S spmm_def mm_eye[OF Ssh] B)
qed

lemma linear_row_length: "layer_shape l n_in n_out \<Longrightarrow> length (linear_row l r) = n_out"
  by (simp add: linear_row_def layer_shape_def)

text \<open>
  C8. With the identity as adjacency matrix the two-layer model is the row-wise
  perceptron (linear, rectifier, linear, with the weights and biases of the two layers)
  applied to every feature row on its own: row \<open>i\<close> of the output is a function of row
  \<open>i\<close> of \<open>X\<close> alone.
\<close>

theorem GCN_forward_identity_is_mlp:
  assumes X: "has_shape X N n_in" and M: "gcn_shape self n_in n_hid n_cls"
  shows "\<exists>Y. GCN_forward self X (eye N) = Inr Y
           \<and> Y = Tensor2 n_cls (map (mlp_row self) (rows X))
           \<and> (\<forall>i<N. rows Y ! i = mlp_row self (rows X ! i))"
proof -
  have L1: "layer_shape (gc1 self) n_in n_hid" and L2: "layer_shape (gc2 self) n_hid n_cls"
    using M by (simp_all add: gcn_shape_def)
  let ?H = "Tensor2 n_hid (map (linear_row (gc1 self)) (rows X))"
  have N: "length (rows X) = N"
    using X by (simp add: has_shape_def nrows_def)
  have H: "GraphConvolution_forward (gc1 self) X (eye N) = Inr ?H"
    using GraphConvolution_forward_eye[OF X L1] .
  have Hsh: "has_shape ?H N n_hid"
    using N by (intro has_shapeI) (simp_all add: linear_row_length[OF L1])
  have "GraphConvolution_forward (gc2 self) (relu ?H) (eye N)
      = Inr (Tensor2 n_cls (map (linear_row (gc2 self)) (rows (relu ?H))))"
    using GraphConvolution_forward_eye[OF relu_shape[OF Hsh] L2] .
  also have "map (linear_row (gc2 self)) (rows (relu ?H)) = map (mlp_row self) (rows X)"
    by (simp add: relu_def mlp_row_def o_def)
  finally have "GCN_forward self X (eye N) = Inr (Tensor2 n_cls (map (mlp_row self) (rows X)))"
    by (simp add: GCN_forward_def H)
  then show ?thesis
    using N by simp
qed

theorem GCN_forward_identity_is_mlp_witness:
  "has_shape (Tensor2 2 [[1, 2], [3, 4 :: real]]) 2 2
   \<and> gcn_shape \<lparr>gc1 = \<lparr>weight = Tensor2 2 [[1, - 1], [- 1, 1 :: real]], bias = [0, 0]\<rparr>,
                 gc2 = \<lparr>weight = Tensor2 1 [[1], [- 2]], bias = [- 10]\<rparr>\<rparr> 2 2 1
   \<and> (\<exists>Y. GCN_forward \<lparr>gc1 = \<lparr>weight = Tensor2 2 [[1, - 1], [- 1, 1 :: real]], bias = [0, 0]\<rparr>,
                        gc2 = \<lparr>weight = Tensor2 1 [[1], [- 2]], bias = [- 10]\<rparr>\<rparr>
             (Tensor2 2 [[1, 2], [3, 4]]) (eye 2) = Inr Y
          \<and> Y = Tensor2 1 (map (mlp_row
                   \<lparr>gc1 = \<lparr>weight = Tensor2 2 [[1, - 1], [- 1, 1 :: real]], bias = [0, 0]\<rparr>,
                    gc2 = \<lparr>weight = Tensor2 1 [[1], [- 2]], bias = [- 10]\<rparr>\<rparr>)
                 (rows (Tensor2 2 [[1, 2], [3, 4]])))
          \<and> (\<forall>i<2. rows Y ! i = mlp_row
                   \<lparr>gc1 = \<lparr>weight = Tensor2 2 [[1, - 1], [- 1, 1 :: real]], bias = [0, 0]\<rparr>,
                    gc2 = \<lparr>weight = Tensor2 1 [[1], [- 2]], bias = [- 10]\<rparr>\<rparr>
                 (rows (Tensor2 2 [[1, 2], [3, 4]]) ! i)))
   \<and> mlp_row \<lparr>gc1 = \<lparr>weight = Tensor2 2 [[1, - 1], [- 1, 1 :: real]], bias = [0, 0]\<rparr>,
               gc2 = \<lparr>weight = Tensor2 1 [[1], [- 2]], bias = [- 10]\<rparr>\<rparr> [1, 2] = [- 12]"
proof -
  have X: "has_shape (Tensor2 2 [[1, 2], [3, 4 :: real]]) 2 2"
    by (simp add: has_shape_def wf_tensor_def nrows_def)
  have M: "gcn_shape \<lparr>gc1 = \<lparr>weight = Tensor2 2 [[1, - 1], [- 1, 1 :: real]], bias = [0, 0]\<rparr>,
                 gc2 = \<lparr>weight = Tensor2 1 [[1], [- 2]], bias = [- 10]\<rparr>\<rparr> 2 2 1"
    by (simp add: gcn_shape_def layer_shape_def wf_tensor_def nrows_def)
  have upt2: "[0..<2] = [0, 1]" "[0..<1] = [0]"
    by (simp_all add: upt_rec)
  have R: "mlp_row \<lparr>gc1 = \<lparr>weight = Tensor2 2 [[1, - 1], [- 1, 1 :: real]], bias = [0, 0]\<rparr>,
               gc2 = \<lparr>weight = Tensor2 1 [[1], [- 2]], bias = [- 10]\<rparr>\<rparr> [1, 2] = [- 12]"
    by (simp add: mlp_row_def linear_row_def dot_def column_def upt2)
  show ?thesis
    by (intro conjI X M R GCN_forward_identity_is_mlp[OF X M])
qed

section \<open>Relabelling the nodes\<close>

lemma perm_set: "is_permutation p n \<Longrightarrow> set p = {..<n}"
proof -
  assume a: "is_permutation p n"
  then have sub: "set p \<subseteq> {..<n}"
    by (auto simp: is_permutation_def list_all_iff)
  have "card (set p) = n"
    using a by (simp add: is_permutation_def distinct_card)
  then show ?thesis
    using sub by (intro card_subset_eq) simp_all
qed

lemma sum_list_perm:
  fixes f :: "nat \<Rightarrow> 'a::comm_monoid_add"
  assumes "is_permutation p n"
  shows "sum_list (map f p) = sum_list (map f [0..<n])"
proof -
  have "sum_list (map f p) = sum f (set p)"
    using assms by (intro sum_list_distinct_conv_sum_set) (simp add: is_permutation_def)
  also have "\<dots> = sum f (set [0..<n])"
    using perm_set[OF assms] by (simp add: atLeast0LessThan)
  also have "\<dots> = sum_list (map f [0..<n])"
    by (simp add: interv_sum_list_conv_sum_set_nat)
  finally show ?thesis .
qed

lemma dot_upt:
  assumes "length xs = n" "length ys = n"
  shows "dot xs ys = sum_list (map (\<lambda>k. xs ! k * ys ! k) [0..<n])"
proof -
  have "map2 (\<lambda>x y. x * y) xs ys = map (\<lambda>k. xs ! k * ys ! k) [0..<n]"
    using assms by (intro nth_equalityI) simp_all
  then show ?thesis by (simp add: dot_def)
qed

lemma dot_perm:
  fixes r c :: "'a::comm_semiring_0 list"
  assumes "length r = n" "length c = n" "is_permutation p n"
  shows "dot (map (\<lambda>k. r ! k) p) (map (\<lambda>k. c ! k) p) = dot r c"
proof -
  have "map2 (\<lambda>x y. x * y) (map (\<lambda>k. r ! k) p) (map (\<lambda>k. c ! k) p)
      = map (\<lambda>k. r ! k * c ! k) p"
    by (intro nth_equalityI) simp_all
  then have "dot (map (\<lambda>k. r ! k) p) (map (\<lambda>k. c ! k) p) = sum_list (map (\<lambda>k. r ! k * c ! k) p)"
    by (simp add: dot_def)
  also have "\<dots> = sum_list (map (\<lambda>k. r ! k * c ! k) [0..<n])"
    by (rule sum_list_perm[OF assms(3)])
  also have "\<dots> = dot r c"
    by (rule dot_upt[OF assms(1,2), symmetric])
  finally show ?thesis .
qed

lemma mm_take_rows:
  assumes "list_all (\<lambda>i. i < nrows X) p"
  shows "mm (take_rows p X) W = map_sum id (take_rows p) (mm X W)"
  using assms by (simp add: mm_def take_rows_def nrows_def list_all_iff)

lemma add_bias_take_rows:
  assumes "list_all (\<lambda>i. i < nrows M) p"
  shows "add_bias (take_rows p M) b = map_sum id (take_rows p) (add_bias M b)"
  using assms by (simp add: add_bias_def take_rows_def nrows_def list_all_iff)

lemma relu_take_rows:
  assumes "list_all (\<lambda>i. i < nrows M) p"
  shows "relu (take_rows p M) = take_rows p (relu M)"
  using assms by (simp add: relu_def take_rows_def nrows_def list_all_iff)

lemma mm_nrows: "mm A S = Inr P \<Longrightarrow> nrows P = nrows A"
  by (auto simp: mm_def nrows_def split: if_splits)

lemma add_bias_nrows: "add_bias P b = Inr Y \<Longrightarrow> nrows Y = nrows P"
  by (auto simp: add_bias_def nrows_def split: if_splits)

lemma GraphConvolution_forward_nrows:
  "GraphConvolution_forward l X A = Inr Y \<Longrightarrow> nrows Y = nrows A"
  by (auto simp: GraphConvolution_forward_def spmm_def split: sum.splits
      dest!: mm_nrows add_bias_nrows)

lemma mm_permute_adj:
  fixes A :: "'a::comm_semiring_0 tensor2"
  assumes A: "has_shape A n n" and S: "nrows S = n" and p: "is_permutation p n"
  shows "mm (permute_adj p A) (take_rows p S) = map_sum id (take_rows p) (mm A S)"
proof -
  have pl: "length p = n" and pin: "\<And>i. i \<in> set p \<Longrightarrow> i < n"
    using p by (simp_all add: is_permutation_def list_all_iff)
  have An: "ncols A = n" "length (rows A) = n"
    using A by (simp_all add: has_shape_def nrows_def)
  have Sn: "length (rows S) = n"
    using S by (simp add: nrows_def)
  have col: "column (take_rows p S) j = map (\<lambda>k. column S j ! k) p" for j
    using pin Sn by (simp add: column_def take_rows_def)
  have row: "map (\<lambda>j. dot (map (\<lambda>k. rows A ! i ! k) p) (column (take_rows p S) j)) [0..<ncols S]
           = map (\<lambda>j. dot (rows A ! i) (column S j)) [0..<ncols S]" if "i \<in> set p" for i
  proof -
    have len: "length (rows A ! i) = n"
      using A pin[OF that] by (simp add: has_shape_def wf_row)
    have "dot (map (\<lambda>k. rows A ! i ! k) p) (column (take_rows p S) j)
        = dot (rows A ! i) (column S j)" for j
      unfolding col by (rule dot_perm[OF len _ p]) (simp add: column_def Sn)
    then show ?thesis by simp
  qed
  show ?thesis
    using pl An Sn pin
    by (simp add: mm_def permute_adj_def take_rows_def nrows_def row[unfolded take_rows_def] o_def)
qed

lemma GraphConvolution_forward_permute:
  fixes A :: "'a::comm_semiring_0 tensor2"
  assumes A: "has_shape A n n" and X: "nrows X = n" and p: "is_permutation p n"
  shows "GraphConvolution_forward l (take_rows p X) (permute_adj p A)
       = map_sum id (take_rows p) (GraphConvolution_forward l X A)"
proof -
  have pin: "list_all (\<lambda>i. i < n) p"
    using p by (simp add: is_permutation_def)
  have An: "nrows A = n"
    using A by (simp add: has_shape_def)
  show ?thesis
  proof (cases "mm X (weight l)")
    case (Inl e)
    then show ?thesis
      using pin X by (simp add: GraphConvolution_forward_def mm_take_rows)
  next
    case (Inr S)
    have Sn: "nrows S = n"
      using mm_nrows[OF Inr] X by simp
    show ?thesis
    proof (cases "mm A S")
      case (Inl e)
      then show ?thesis
        using pin X Inr
        by (simp add: GraphConvolution_forward_def mm_take_rows spmm_def
            mm_permute_adj[OF A Sn p])
    next
      case P: (Inr P)
      have Pn: "nrows P = n"
        using mm_nrows[OF P] An by simp
      show ?thesis
        using pin X Inr P Pn
        by (simp add: GraphConvolution_forward_def mm_take_rows spmm_def
            mm_permute_adj[OF A Sn p] add_bias_take_rows)
    qed
  qed
qed

lemma GCN_forward_permute:
  fixes A :: "'a::{comm_semiring_0,linorder} tensor2"
  assumes A: "has_shape A n n" and X: "nrows X = n" and p: "is_permutation p n"
  shows "GCN_forward m (take_rows p X) (permute_adj p A)
       = map_sum id (take_rows p) (GCN_forward m X A)"
proof (cases "GraphConvolution_forward (gc1 m) X A")
  case (Inl e)
  then show ?thesis
    by (simp add: GCN_forward_def GraphConvolution_forward_permute[OF A X p])
next
  case (Inr H)
  have Hn: "nrows H = n"
    using GraphConvolution_forward_nrows[OF Inr] A by (simp add: has_shape_def)
  have pin: "list_all (\<lambda>i. i < nrows H) p"
    using p Hn by (simp add: is_permutation_def)
  have Rn: "nrows (relu H) = n"
    using Hn by (simp add: relu_def nrows_def)
  show ?thesis
    using Inr
    by (simp add: GCN_forward_def GraphConvolution_forward_permute[OF A X p]
        relu_take_rows[OF pin] GraphConvolution_forward_permute[OF A Rn p])
qed

lemma accuracy_permute:
  assumes Y: "nrows Y = n" and l: "length labels = n" and p: "is_permutation p n"
  shows "accuracy (take_rows p Y) (take_list p labels) = accuracy Y labels"
proof (cases "ncols Y = 0")
  case True
  then show ?thesis
    by (simp add: accuracy_def get_predictions_def max_dim1_def take_rows_def)
next
  case False
  have pl: "length p = n" and pin: "\<And>i. i < n \<Longrightarrow> p ! i < n"
    using p by (simp_all add: is_permutation_def list_all_length)
  let ?g = "\<lambda>i. if int (argmax (rows Y ! i)) = labels ! i then 1 else (0 :: real)"
  have c: "0 < ncols (take_rows p Y)" "0 < ncols Y"
    using False by (simp_all add: take_rows_def)
  have len': "length (take_list p labels) = length (rows (take_rows p Y))"
    by (simp add: take_list_def take_rows_def)
  have len: "length labels = length (rows Y)"
    using Y l by (simp add: nrows_def)
  have "map (\<lambda>i. if int (argmax (rows (take_rows p Y) ! i)) = take_list p labels ! i
                  then 1 else (0 :: real)) [0..<length (take_list p labels)]
      = map ?g p"
    using pl by (intro nth_equalityI) (simp_all add: take_rows_def take_list_def)
  then have "get_predictions (take_rows p Y) (take_list p labels) = Inr (map ?g p)"
    using get_predictions_equal_length[OF c(1) len'] by simp
  moreover have "get_predictions Y labels = Inr (map ?g [0..<n])"
    using get_predictions_equal_length[OF c(2) len] l by simp
  moreover have "length (take_list p labels) = length labels"
    using pl l by (simp add: take_list_def)
  ultimately show ?thesis
    by (simp add: accuracy_def sum_list_perm[OF p])
qed

text \<open>
  The test indices select the same nodes before and after a relabelling when they are
  relabelled with it; over all nodes the order of the indices does not matter.
\<close>

lemma index_take_rows:
  assumes "nrows Y = N" "length p = N" "list_all (\<lambda>i. i < N) idx"
  shows "take_rows idx (take_rows p Y) = take_rows (take_list idx p) Y"
  using assms by (simp add: take_rows_def take_list_def list_all_iff)

lemma index_take_list:
  assumes "length p = N" "list_all (\<lambda>i. i < N) idx"
  shows "take_list idx (take_list p xs) = take_list (take_list idx p) xs"
  using assms by (simp add: take_list_def list_all_iff)

lemma GCN_forward_nrows: "GCN_forward m X A = Inr Y \<Longrightarrow> nrows Y = nrows A"
  by (auto simp: GCN_forward_def split: sum.splits dest: GraphConvolution_forward_nrows)

lemma gcn_accuracy_relabelled:
  fixes A :: "'a::{comm_semiring_0,linorder} tensor2"
  assumes X: "nrows X = N" and A: "has_shape A N N" and l: "length labels = N"
    and p: "is_permutation p N" and idx: "list_all (\<lambda>i. i < N) idx"
  shows "gcn_accuracy m (take_rows p X) (permute_adj p A) (take_list p labels) idx
       = gcn_accuracy m X A labels (take_list idx p)"
proof (cases "GCN_forward m X A")
  case (Inl e)
  then show ?thesis
    by (simp add: gcn_accuracy_def GCN_forward_permute[OF A X p])
next
  case (Inr Y)
  have Yn: "nrows Y = N"
    using GCN_forward_nrows[OF Inr] A by (simp add: has_shape_def)
  have pl: "length p = N" and pin: "list_all (\<lambda>i. i < N) p"
    using p by (simp_all add: is_permutation_def)
  have in1: "list_all (\<lambda>i. i < nrows (take_rows p Y)) idx"
    using idx pl by (simp add: take_rows_def nrows_def)
  have in2: "list_all (\<lambda>i. i < length (take_list p labels)) idx"
    using idx pl by (simp add: take_list_def)
  have in3: "list_all (\<lambda>i. i < N) (take_list idx p)"
    using idx pin pl by (simp add: take_list_def list_all_iff)
  show ?thesis
    using Inr in1 in2 in3 Yn l
    by (simp add: gcn_accuracy_def GCN_forward_permute[OF A X p] index_rows_def index_list_def
        index_take_rows[OF Yn pl idx] index_take_list[OF pl idx])
qed

lemma gcn_accuracy_all_nodes:
  assumes "GCN_forward m X A = Inr Y" "nrows Y = N" "length labels = N" "is_permutation p N"
  shows "gcn_accuracy m X A labels p = gcn_accuracy m X A labels [0..<N]"
proof -
  have pin: "list_all (\<lambda>i. i < N) p"
    using assms(4) by (simp add: is_permutation_def)
  have "map ((!) (rows Y)) [0..<length (rows Y)] = rows Y"
      "map ((!) labels) [0..<length labels] = labels"
    by (rule map_nth)+
  then have t: "take_rows [0..<N] Y = Y" "take_list [0..<N] labels = labels"
    using assms(2,3) by (simp_all add: take_rows_def take_list_def nrows_def)
  show ?thesis
    using assms(1,2,3) pin
    by (simp add: gcn_accuracy_def index_rows_def index_list_def t
        accuracy_permute[OF assms(2,3,4)] list_all_iff)
qed

text \<open>
  C7, amended. In exact arithmetic, for every permutation of the node indices applied
  to the rows of the feature matrix, to the rows and columns of the adjacency matrix and
  to the label vector, and for every parameter state, the accuracy of the two-layer model
  is unchanged when the test index set is relabelled with the nodes (index \<open>i\<close> after
  the relabelling is index \<open>p ! i\<close> before it), and also when it is all nodes. The sums
  of the propagation step are reordered, so entries are taken in a commutative semiring.
\<close>

theorem gcn_accuracy_permutation_invariant:
  fixes A :: "'a::{comm_semiring_0,linorder} tensor2"
  assumes "nrows X = N" and "has_shape A N N" and "length labels = N"
    and "is_permutation p N" and "list_all (\<lambda>i. i < N) idx_test"
  shows "gcn_accuracy m (take_rows p X) (permute_adj p A) (take_list p labels) idx_test
           = gcn_accuracy m X A labels (take_list idx_test p)
       \<and> gcn_accuracy m (take_rows p X) (permute_adj p A) (take_list p labels) [0..<N]
           = gcn_accuracy m X A labels [0..<N]"
proof -
  have all: "list_all (\<lambda>i. i < N) [0..<N]"
    by (simp add: list_all_iff)
  have pl: "length p = N"
    using assms(4) by (simp add: is_permutation_def)
  have "map ((!) p) [0..<length p] = p"
    by (rule map_nth)
  then have tp: "take_list [0..<N] p = p"
    using pl by (simp add: take_list_def)
  have "gcn_accuracy m X A labels p = gcn_accuracy m X A labels [0..<N]"
  proof (cases "GCN_forward m X A")
    case (Inl e)
    then show ?thesis by (simp add: gcn_accuracy_def)
  next
    case (Inr Y)
    have "nrows Y = N"
      using GCN_forward_nrows[OF Inr] assms(2) by (simp add: has_shape_def)
    from gcn_accuracy_all_nodes[OF Inr this assms(3,4)] show ?thesis .
  qed
  then show ?thesis
    using gcn_accuracy_relabelled[OF assms(1-4) assms(5), of m]
      gcn_accuracy_relabelled[OF assms(1-4) all, of m]
    by (simp add: tp)
qed

theorem gcn_accuracy_permutation_invariant_witness:
  "nrows (Tensor2 2 [[1, 2], [3, 4 :: real]]) = 2
   \<and> has_shape (Tensor2 2 [[1, 0], [1, 1 :: real]]) 2 2
   \<and> length [1, 0 :: int] = 2
   \<and> is_permutation [1, 0] 2
   \<and> list_all (\<lambda>i. i < 2) [1 :: nat]
   \<and> gcn_accuracy \<lparr>gc1 = \<lparr>weight = Tensor2 2 [[1, - 1], [- 1, 1 :: real]], bias = [0, 0]\<rparr>,
                    gc2 = \<lparr>weight = Tensor2 2 [[1, 0], [- 2, 1]], bias = [0, 0]\<rparr>\<rparr>
        (take_rows [1, 0] (Tensor2 2 [[1, 2], [3, 4]]))
        (permute_adj [1, 0] (Tensor2 2 [[1, 0], [1, 1]]))
        (take_list [1, 0] [1, 0]) [1]
     = gcn_accuracy \<lparr>gc1 = \<lparr>weight = Tensor2 2 [[1, - 1], [- 1, 1 :: real]], bias = [0, 0]\<rparr>,
                      gc2 = \<lparr>weight = Tensor2 2 [[1, 0], [- 2, 1]], bias = [0, 0]\<rparr>\<rparr>
        (Tensor2 2 [[1, 2], [3, 4]]) (Tensor2 2 [[1, 0], [1, 1]]) [1, 0] (take_list [1] [1, 0])
   \<and> gcn_accuracy \<lparr>gc1 = \<lparr>weight = Tensor2 2 [[1, - 1], [- 1, 1 :: real]], bias = [0, 0]\<rparr>,
                    gc2 = \<lparr>weight = Tensor2 2 [[1, 0], [- 2, 1]], bias = [0, 0]\<rparr>\<rparr>
        (take_rows [1, 0] (Tensor2 2 [[1, 2], [3, 4]]))
        (permute_adj [1, 0] (Tensor2 2 [[1, 0], [1, 1]]))
        (take_list [1, 0] [1, 0]) [0..<2]
     = gcn_accuracy \<lparr>gc1 = \<lparr>weight = Tensor2 2 [[1, - 1], [- 1, 1 :: real]], bias = [0, 0]\<rparr>,
                      gc2 = \<lparr>weight = Tensor2 2 [[1, 0], [- 2, 1]], bias = [0, 0]\<rparr>\<rparr>
        (Tensor2 2 [[1, 2], [3, 4]]) (Tensor2 2 [[1, 0], [1, 1]]) [1, 0] [0..<2]
   \<and> gcn_accuracy \<lparr>gc1 = \<lparr>weight = Tensor2 2 [[1, - 1], [- 1, 1 :: real]], bias = [0, 0]\<rparr>,
                    gc2 = \<lparr>weight = Tensor2 2 [[1, 0], [- 2, 1]], bias = [0, 0]\<rparr>\<rparr>
        (Tensor2 2 [[1, 2], [3, 4]]) (Tensor2 2 [[1, 0], [1, 1]]) [1, 0] [0..<2]
     = Inr (Finite (1 / 2))
   \<and> gcn_accuracy \<lparr>gc1 = \<lparr>weight = Tensor2 2 [[1, - 1], [- 1, 1 :: real]], bias = [0, 0]\<rparr>,
                    gc2 = \<lparr>weight = Tensor2 2 [[1, 0], [- 2, 1]], bias = [0, 0]\<rparr>\<rparr>
        (Tensor2 2 [[1, 2], [3, 4]]) (Tensor2 2 [[1, 0], [1, 1]]) [1, 0] (take_list [1] [1, 0])
     = Inr (Finite 1)"
proof -
  let ?m = "\<lparr>gc1 = \<lparr>weight = Tensor2 2 [[1, - 1], [- 1, 1 :: real]], bias = [0, 0]\<rparr>,
             gc2 = \<lparr>weight = Tensor2 2 [[1, 0], [- 2, 1]], bias = [0, 0]\<rparr>\<rparr>"
  have X: "nrows (Tensor2 2 [[1, 2], [3, 4 :: real]]) = 2"
    by (simp add: nrows_def)
  have A: "has_shape (Tensor2 2 [[1, 0], [1, 1 :: real]]) 2 2"
    by (simp add: has_shape_def wf_tensor_def nrows_def)
  have l: "length [1, 0 :: int] = 2"
    by simp
  have p: "is_permutation [1, 0] 2"
    by (simp add: is_permutation_def)
  have i: "list_all (\<lambda>i. i < 2) [1 :: nat]"
    by simp
  have F: "GCN_forward ?m (Tensor2 2 [[1, 2], [3, 4]]) (Tensor2 2 [[1, 0], [1, 1]])
         = Inr (Tensor2 2 [[- 2, 1], [- 6, 3]])"
    by (simp add: GCN_forward_def GraphConvolution_forward_def mm_def spmm_def add_bias_def
        dot_def column_def nrows_def relu_def upt_small)
  have V: "gcn_accuracy ?m (Tensor2 2 [[1, 2], [3, 4]]) (Tensor2 2 [[1, 0], [1, 1]]) [1, 0] [0..<2]
         = Inr (Finite (1 / 2))"
    by (simp add: gcn_accuracy_def F index_rows_def index_list_def take_rows_def take_list_def
        nrows_def accuracy_def get_predictions_def max_dim1_def eq_broadcast_def argmax_def
        true_divide_def upt_small)
  have V1: "gcn_accuracy ?m (Tensor2 2 [[1, 2], [3, 4]]) (Tensor2 2 [[1, 0], [1, 1]]) [1, 0]
           (take_list [1] [1, 0]) = Inr (Finite 1)"
    by (simp add: gcn_accuracy_def F index_rows_def index_list_def take_rows_def take_list_def
        nrows_def accuracy_def get_predictions_def max_dim1_def eq_broadcast_def argmax_def
        true_divide_def)
  note T = gcn_accuracy_permutation_invariant[OF X A l p i, of ?m]
  show ?thesis
    by (intro conjI X A l p i V V1 conjunct1[OF T] conjunct2[OF T])
qed

text \<open>
  C7 as stated, for the \<^verbatim>\<open>float32\<close> tensors of the program: three nodes with features
  \<open>2^24, 1, 1\<close>, node 0 adjacent to all, and the relabelling \<open>p = [1, 2, 0]\<close>. Before it
  the propagation sum of node 0 is \<open>(2^24 + 1) + 1\<close>, rounded to \<open>2^24\<close>, and the node is
  classified wrongly; after it the sum is \<open>(1 + 1) + 2^24 = 2^24 + 2\<close> and the node is
  classified correctly. The accuracy over all nodes is \<open>2/3\<close> before and \<open>1\<close> after.
\<close>

theorem gcn_accuracy_float32_counterexample:
  "is_permutation [1, 2, 0] 3
   \<and> has_shape (Tensor2 3 [[1, 1, 1], [0, 1, 0], [0, 0, 1 :: real]]) 3 3
   \<and> gcn_accuracy_rounded round32
      \<lparr>gc1 = \<lparr>weight = Tensor2 1 [[1]], bias = [0]\<rparr>,
       gc2 = \<lparr>weight = Tensor2 2 [[1, 0]], bias = [0, 16777218]\<rparr>\<rparr>
      (take_rows [1, 2, 0] (Tensor2 1 [[16777216], [1], [1]]))
      (permute_adj [1, 2, 0] (Tensor2 3 [[1, 1, 1], [0, 1, 0], [0, 0, 1]]))
      (take_list [1, 2, 0] [0, 1, 1]) [0, 1, 2] = Inr (Finite 1)
   \<and> gcn_accuracy_rounded round32
      \<lparr>gc1 = \<lparr>weight = Tensor2 1 [[1]], bias = [0]\<rparr>,
       gc2 = \<lparr>weight = Tensor2 2 [[1, 0]], bias = [0, 16777218]\<rparr>\<rparr>
      (Tensor2 1 [[16777216], [1], [1]])
      (Tensor2 3 [[1, 1, 1], [0, 1, 0], [0, 0, 1]])
      [0, 1, 1] [1, 2, 0] = Inr (Finite (2 / 3))
   \<and> gcn_accuracy_rounded round32
      \<lparr>gc1 = \<lparr>weight = Tensor2 1 [[1]], bias = [0]\<rparr>,
       gc2 = \<lparr>weight = Tensor2 2 [[1, 0]], bias = [0, 16777218]\<rparr>\<rparr>
      (Tensor2 1 [[16777216], [1], [1]])
      (Tensor2 3 [[1, 1, 1], [0, 1, 0], [0, 0, 1]])
      [0, 1, 1] [0, 1, 2] = Inr (Finite (2 / 3))
   \<and> Finite 1 \<noteq> Finite (2 / 3)"
  by (simp add: is_permutation_def has_shape_def wf_tensor_def
      gcn_accuracy_rounded_def GCN_forward_rounded_def
      GraphConvolution_forward_rounded_def mm_rounded_def spmm_rounded_def
      add_bias_rounded_def dot_rounded_def column_def nrows_def relu_def
      take_rows_def take_list_def permute_adj_def index_rows_def index_list_def
      accuracy_def get_predictions_def max_dim1_def eq_broadcast_def argmax_def
      true_divide_def upt_small round32_values)

section \<open>The training loop: iterations\<close>

text \<open>
  One pass through the loop body records the loss of the current parameters and replaces
  parameters, gradient buffers and optimizer state by their update; it raises exactly
  when the forward pass, the indexing or the loss function does.
\<close>

lemma epoch_masked_loss:
  "epoch fw X A ls idx s =
     (case masked_loss fw X A ls idx (gcn s) of
        Inl e \<Rightarrow> Inl e
      | Inr loss \<Rightarrow>
          Inr \<lparr>gcn = fst (update fw (gcn s, grads s, opt s)),
               grads = fst (snd (update fw (gcn s, grads s, opt s))),
               opt = snd (snd (update fw (gcn s, grads s, opt s))),
               losses = losses s @ [loss]\<rparr>)"
  by (simp add: epoch_def masked_loss_def update_def index_rows_def index_list_def Let_def
      split: sum.splits prod.splits)

lemma params_after_shift: "params_after fw (Suc k) c = params_after fw k (update fw c)"
  by (induction k) simp_all

lemma train_loop_closed_form:
  assumes "\<forall>k<E. \<exists>l. masked_loss fw X A ls idx
                      (fst (params_after fw k (gcn s0, grads s0, opt s0))) = Inr l"
  shows "train_loop fw X A ls idx E s0 =
     Inr \<lparr>gcn = fst (params_after fw E (gcn s0, grads s0, opt s0)),
          grads = fst (snd (params_after fw E (gcn s0, grads s0, opt s0))),
          opt = snd (snd (params_after fw E (gcn s0, grads s0, opt s0))),
          losses = losses s0 @
            map (\<lambda>k. projr (masked_loss fw X A ls idx
                        (fst (params_after fw k (gcn s0, grads s0, opt s0))))) [0..<E]\<rparr>"
  using assms
proof (induction E arbitrary: s0)
  case 0
  then show ?case by simp
next
  case (Suc E)
  let ?c0 = "(gcn s0, grads s0, opt s0)"
  obtain l0 where l0: "masked_loss fw X A ls idx (gcn s0) = Inr l0"
    using Suc.prems by force
  let ?s1 = "\<lparr>gcn = fst (update fw ?c0), grads = fst (snd (update fw ?c0)),
              opt = snd (snd (update fw ?c0)), losses = losses s0 @ [l0]\<rparr>"
  have e: "epoch fw X A ls idx s0 = Inr ?s1"
    by (simp add: epoch_masked_loss l0)
  have c1: "(gcn ?s1, grads ?s1, opt ?s1) = update fw ?c0"
    by simp
  have "\<forall>k<E. \<exists>l. masked_loss fw X A ls idx
                      (fst (params_after fw k (gcn ?s1, grads ?s1, opt ?s1))) = Inr l"
    unfolding c1 using Suc.prems by (auto simp: params_after_shift[symmetric] simp del: params_after.simps)
  from Suc.IH[OF this] have
    "train_loop fw X A ls idx E ?s1 =
     Inr \<lparr>gcn = fst (params_after fw E (update fw ?c0)),
          grads = fst (snd (params_after fw E (update fw ?c0))),
          opt = snd (snd (params_after fw E (update fw ?c0))),
          losses = (losses s0 @ [l0]) @
            map (\<lambda>k. projr (masked_loss fw X A ls idx
                        (fst (params_after fw k (update fw ?c0))))) [0..<E]\<rparr>"
    unfolding c1 by simp
  moreover have "[0..<Suc E] = 0 # map Suc [0..<E]"
    by (simp add: upt_conv_Cons map_Suc_upt del: upt_Suc)
  ultimately show ?case
    using e l0
    by (simp add: params_after_shift[symmetric] o_def del: params_after.simps(2) upt_Suc)
qed

lemma train_loop_raises:
  assumes "j < E"
    and "\<forall>k<j. \<exists>l. masked_loss fw X A ls idx
                      (fst (params_after fw k (gcn s0, grads s0, opt s0))) = Inr l"
    and "masked_loss fw X A ls idx (fst (params_after fw j (gcn s0, grads s0, opt s0))) = Inl e"
  shows "train_loop fw X A ls idx E s0 = Inl e"
  using assms
proof (induction E arbitrary: s0 j)
  case 0
  then show ?case by simp
next
  case (Suc E)
  let ?c0 = "(gcn s0, grads s0, opt s0)"
  show ?case
  proof (cases j)
    case 0
    then show ?thesis
      using Suc.prems(3) by (simp add: epoch_masked_loss)
  next
    case (Suc j')
    obtain l0 where l0: "masked_loss fw X A ls idx (gcn s0) = Inr l0"
      using Suc.prems(2) Suc by force
    let ?s1 = "\<lparr>gcn = fst (update fw ?c0), grads = fst (snd (update fw ?c0)),
                opt = snd (snd (update fw ?c0)), losses = losses s0 @ [l0]\<rparr>"
    have c1: "(gcn ?s1, grads ?s1, opt ?s1) = update fw ?c0"
      by simp
    have a: "j' < E"
      using Suc.prems(1) Suc by simp
    have b: "\<forall>k<j'. \<exists>l. masked_loss fw X A ls idx
                      (fst (params_after fw k (gcn ?s1, grads ?s1, opt ?s1))) = Inr l"
      unfolding c1 using Suc.prems(2) Suc
      by (auto simp: params_after_shift[symmetric] simp del: params_after.simps)
    have c: "masked_loss fw X A ls idx
                (fst (params_after fw j' (gcn ?s1, grads ?s1, opt ?s1))) = Inl e"
      unfolding c1 using Suc.prems(3) Suc
      by (simp add: params_after_shift[symmetric] del: params_after.simps)
    show ?thesis
      using Suc.IH[OF a b c] by (simp add: epoch_masked_loss l0)
  qed
qed

text \<open>
  C9. For every epoch budget \<open>E\<close>, if no iteration raises, the loop runs \<open>E\<close> iterations
  and nothing stops it earlier: the parameters at the end are the initial ones after
  exactly \<open>E\<close> optimizer steps, the \<open>k\<close>-th recorded loss is the loss function applied
  to the rows \<open>idx_train\<close> of the logits of all nodes, computed from the parameters after
  \<open>k\<close> steps, and to the labels at \<open>idx_train\<close>, and the list of recorded losses has
  length \<open>E\<close>. (An iteration that raises ends the loop with its exception, lemma
  \<open>train_loop_raises\<close>.)
\<close>

theorem train_runs_all_epochs:
  assumes "\<forall>k<E. \<exists>l. masked_loss fw X A ls idx (fst (params_after fw k (m0, g0, o0))) = Inr l"
  shows "\<exists>s. train fw X A ls idx E m0 g0 o0 = Inr s
           \<and> length (losses s) = E
           \<and> (gcn s, grads s, opt s) = params_after fw E (m0, g0, o0)
           \<and> (\<forall>k<E. masked_loss fw X A ls idx (fst (params_after fw k (m0, g0, o0)))
                        = Inr (losses s ! k))"
proof -
  let ?s0 = "\<lparr>gcn = m0, grads = g0, opt = o0, losses = []\<rparr>"
  have "\<forall>k<E. \<exists>l. masked_loss fw X A ls idx
                      (fst (params_after fw k (gcn ?s0, grads ?s0, opt ?s0))) = Inr l"
    using assms by simp
  from train_loop_closed_form[OF this]
  have "train fw X A ls idx E m0 g0 o0 =
     Inr \<lparr>gcn = fst (params_after fw E (m0, g0, o0)),
          grads = fst (snd (params_after fw E (m0, g0, o0))),
          opt = snd (snd (params_after fw E (m0, g0, o0))),
          losses = map (\<lambda>k. projr (masked_loss fw X A ls idx
                        (fst (params_after fw k (m0, g0, o0))))) [0..<E]\<rparr>"
    by (simp add: train_def)
  moreover have "\<forall>k<E. masked_loss fw X A ls idx (fst (params_after fw k (m0, g0, o0)))
       = Inr (map (\<lambda>k. projr (masked_loss fw X A ls idx
                        (fst (params_after fw k (m0, g0, o0))))) [0..<E] ! k)"
    using assms by auto
  ultimately show ?thesis
    by simp
qed

theorem train_runs_all_epochs_witness:
  "train
        \<lparr>cross_entropy = (\<lambda>Y ls. if nrows Y = length ls
                                   then Inr (sum_list (map sum_list (rows Y)))
                                   else Inl ShapeError),
         zero_grad = (\<lambda>g. 0), backward = (\<lambda>m g. g + 1),
         opt_step = (\<lambda>o1 m g. (Suc o1,
            m\<lparr>gc2 := (gc2 m)\<lparr>bias := map (\<lambda>x. x - real g) (bias (gc2 m))\<rparr>\<rparr>))\<rparr>
        (Tensor2 1 [[1], [2 :: real]]) (Tensor2 2 [[1, 0], [0, 1]]) [0, 0] [0] 2
        \<lparr>gc1 = \<lparr>weight = Tensor2 1 [[1]], bias = [0]\<rparr>,
         gc2 = \<lparr>weight = Tensor2 1 [[1]], bias = [0]\<rparr>\<rparr> (0 :: nat) (0 :: nat)
      = Inr \<lparr>gcn = \<lparr>gc1 = \<lparr>weight = Tensor2 1 [[1]], bias = [0]\<rparr>,
                     gc2 = \<lparr>weight = Tensor2 1 [[1]], bias = [- 2]\<rparr>\<rparr>,
             grads = 1, opt = 2, losses = [1, 0]\<rparr>"
proof -
  let ?fw = "\<lparr>cross_entropy = (\<lambda>Y ls. if nrows Y = length ls
                                   then Inr (sum_list (map sum_list (rows Y)))
                                   else Inl ShapeError),
         zero_grad = (\<lambda>g :: nat. 0), backward = (\<lambda>m g. g + 1),
         opt_step = (\<lambda>o1 m g. (Suc o1,
            m\<lparr>gc2 := (gc2 m)\<lparr>bias := map (\<lambda>x. x - real g) (bias (gc2 m))\<rparr>\<rparr>))\<rparr>"
  let ?X = "Tensor2 1 [[1], [2 :: real]]"
  let ?A = "Tensor2 2 [[1, 0], [0, 1 :: real]]"
  let ?m = "\<lambda>b :: real. \<lparr>gc1 = \<lparr>weight = Tensor2 1 [[1 :: real]], bias = [0]\<rparr>,
              gc2 = \<lparr>weight = Tensor2 1 [[1]], bias = [b]\<rparr>\<rparr>"
  have upt: "[0..<1] = [0]"
    by (simp add: upt_rec)
  have fwd: "GCN_forward (?m b) ?X ?A = Inr (Tensor2 1 [[1 + b], [2 + b]])" for b
    by (simp add: GCN_forward_def GraphConvolution_forward_def mm_def spmm_def add_bias_def
        dot_def column_def nrows_def relu_def upt)
  have loss: "masked_loss ?fw ?X ?A [0, 0] [0] (?m b) = Inr (1 + b)" for b
    unfolding masked_loss_def fwd by (simp add: nrows_def take_rows_def take_list_def)
  have upd: "update ?fw (?m b, g, o1) = (?m (b - 1), 1, Suc o1)" for b g o1
    by (simp add: update_def)
  have p0: "params_after ?fw 0 (?m 0, 0, 0) = (?m 0, 0, 0)"
    by simp
  have p1: "params_after ?fw 1 (?m 0, 0, 0) = (?m (- 1), 1, 1)"
    using upd[of 0 0 0] by simp
  have p2: "params_after ?fw 2 (?m 0, 0, 0) = (?m (- 2), 1, 2)"
    using upd[of "- 1" 1 1] p1 by (simp add: numeral_2_eq_2)
  have ok: "\<forall>k<2. \<exists>l. masked_loss ?fw ?X ?A [0, 0] [0]
               (fst (params_after ?fw k (?m 0, 0, 0))) = Inr l"
  proof (intro allI impI)
    fix k :: nat assume "k < 2"
    then consider "k = 0" | "k = 1" by linarith
    then show "\<exists>l. masked_loss ?fw ?X ?A [0, 0] [0]
               (fst (params_after ?fw k (?m 0, 0, 0))) = Inr l"
    proof cases
      case 1
      then show ?thesis using loss[of 0] by simp
    next
      case 2
      then show ?thesis using loss[of "- 1"] p1 by simp
    qed
  qed
  obtain s where s: "train ?fw ?X ?A [0, 0] [0] 2 (?m 0) 0 0 = Inr s"
      "length (losses s) = 2"
      "(gcn s, grads s, opt s) = params_after ?fw 2 (?m 0, 0, 0)"
      "\<forall>k<2. masked_loss ?fw ?X ?A [0, 0] [0] (fst (params_after ?fw k (?m 0, 0, 0)))
                = Inr (losses s ! k)"
    using train_runs_all_epochs[OF ok] by blast
  have l0: "losses s ! 0 = 1"
    using s(4)[rule_format, of 0] loss[of 0] by simp
  have l1: "losses s ! 1 = 0"
    using s(4)[rule_format, of 1] loss[of "- 1"] p1 by simp
  have "losses s = [1, 0]"
    using s(2) l0 l1 by (intro nth_equalityI) (auto simp: less_Suc_eq numeral_2_eq_2)
  moreover have "gcn s = ?m (- 2)" "grads s = 1" "opt s = 2"
    using s(3) p2 by simp_all
  ultimately have "s = \<lparr>gcn = ?m (- 2), grads = 1, opt = 2, losses = [1, 0]\<rparr>"
    by simp
  then show ?thesis
    using s(1) by simp
qed

end
